theory Spec2Isabelle
  imports Complex_Main "HOL-Library.AList"
begin

section \<open>JavaScript values used by volumeRPC.js\<close>

text \<open>
  The module keeps one object, \<open>tsRPC\<close>, and a handful of functions that read and write it.
  Numbers that the module computes with are integers (time points, section indices, sizes)
  except \<open>bufferL2Size\<close>, which is halved and can become a fraction: it is a rational here.
  All of them are far below \<open>2^53\<close>, where JavaScript's doubles are exact.
  A JavaScript number that may be \<open>NaN\<close> is a \<open>rat option\<close>, \<open>None\<close> being \<open>NaN\<close>.
\<close>

datatype error = TypeError | TransportFailure | SyntaxError

datatype jsval =
    JUndefined
  | JNull
  | JBool bool
  | JNum rat
  | JStr string
  | JArr "jsval list"
  | JObj "(string \<times> jsval) list"

text \<open>What \<open>if (v)\<close> and \<open>!v\<close> test.\<close>

fun truthy :: "jsval \<Rightarrow> bool" where
  "truthy JUndefined = False"
| "truthy JNull = False"
| "truthy (JBool b) = b"
| "truthy (JNum r) = (r \<noteq> 0)"
| "truthy (JStr s) = (s \<noteq> [])"
| "truthy (JArr xs) = True"
| "truthy (JObj kvs) = True"

subsection \<open>Numbers as strings\<close>

text \<open>
  String concatenation with a number writes the number in decimal, with a minus sign
  when it is negative (for integers below \<open>10^21\<close> in size).
\<close>

definition digitChar :: "nat \<Rightarrow> char" where
  "digitChar d = ''0123456789'' ! d"

function natToString :: "nat \<Rightarrow> string" where
  "natToString n =
     (if n < 10 then [digitChar n] else natToString (n div 10) @ [digitChar (n mod 10)])"
  by pat_completeness auto
termination
  by (relation "measure id") auto

declare natToString.simps [simp del]

definition numToString :: "int \<Rightarrow> string" where
  "numToString i = (if i < 0 then CHR ''-'' # natToString (nat (- i)) else natToString (nat i))"

subsection \<open>Reading a property by index\<close>

text \<open>
  \<open>v[i]\<close> for an integer \<open>i\<close>: \<open>undefined\<close> and \<open>null\<close> throw a TypeError, an array
  or a string gives the element or \<open>undefined\<close>, an object looks the decimal key up, and a
  number or a boolean has no such property.
\<close>

definition jsGet :: "jsval \<Rightarrow> int \<Rightarrow> error + jsval" where
  "jsGet v i =
     (case v of
        JUndefined \<Rightarrow> Inl TypeError
      | JNull \<Rightarrow> Inl TypeError
      | JBool b \<Rightarrow> Inr JUndefined
      | JNum r \<Rightarrow> Inr JUndefined
      | JStr s \<Rightarrow> (if 0 \<le> i \<and> i < int (length s) then Inr (JStr [s ! nat i]) else Inr JUndefined)
      | JArr xs \<Rightarrow> (if 0 \<le> i \<and> i < int (length xs) then Inr (xs ! nat i) else Inr JUndefined)
      | JObj kvs \<Rightarrow> (case map_of kvs (numToString i) of Some w \<Rightarrow> Inr w | None \<Rightarrow> Inr JUndefined))"

type_synonym view = "jsval \<times> jsval \<times> jsval"

text \<open>The array literal \<open>[buffer[0][t], buffer[1][t], buffer[2][t]]\<close>, evaluated left to right.\<close>

definition viewAt :: "jsval \<Rightarrow> int \<Rightarrow> error + view" where
  "viewAt buffer t =
     (case jsGet buffer 0 of Inl e \<Rightarrow> Inl e | Inr b0 \<Rightarrow>
      case jsGet b0 t of Inl e \<Rightarrow> Inl e | Inr x \<Rightarrow>
      case jsGet buffer 1 of Inl e \<Rightarrow> Inl e | Inr b1 \<Rightarrow>
      case jsGet b1 t of Inl e \<Rightarrow> Inl e | Inr y \<Rightarrow>
      case jsGet buffer 2 of Inl e \<Rightarrow> Inl e | Inr b2 \<Rightarrow>
      case jsGet b2 t of Inl e \<Rightarrow> Inl e | Inr z \<Rightarrow> Inr (x, y, z))"

subsection \<open>Arithmetic of the module\<close>

text \<open>\<open>Math.ceil(a / b)\<close> and \<open>Math.floor(a / b)\<close> for integers with \<open>b\<close> not zero.\<close>

definition ceilDiv :: "int \<Rightarrow> int \<Rightarrow> int" where
  "ceilDiv a b = - ((- a) div b)"

definition floorDiv :: "int \<Rightarrow> int \<Rightarrow> int" where
  "floorDiv a b = a div b"

text \<open>\<open>a % b\<close> on integers: the remainder has the sign of the dividend.\<close>

definition intRem :: "int \<Rightarrow> int \<Rightarrow> int" where
  "intRem a b = sgn a * (\<bar>a\<bar> mod \<bar>b\<bar>)"

text \<open>\<open>x % m\<close> on a fraction: \<open>x - m * trunc(x / m)\<close>, and \<open>NaN\<close> when \<open>m\<close> is zero.\<close>

definition truncRat :: "rat \<Rightarrow> int" where
  "truncRat q = (if 0 \<le> q then \<lfloor>q\<rfloor> else \<lceil>q\<rceil>)"

definition jsRem :: "rat \<Rightarrow> int \<Rightarrow> rat option" where
  "jsRem x m = (if m = 0 then None else Some (x - of_int m * of_int (truncRat (x / of_int m))))"

text \<open>\<open>a < b\<close> is false as soon as one side is \<open>NaN\<close>.\<close>

definition numLess :: "rat option \<Rightarrow> rat option \<Rightarrow> bool" where
  "numLess a b = (case a of None \<Rightarrow> False | Some x \<Rightarrow> (case b of None \<Rightarrow> False | Some y \<Rightarrow> x < y))"

subsection \<open>Arrays\<close>

text \<open>\<open>Array.prototype.indexOf\<close>: the first position of the element, or \<open>-1\<close>.\<close>

fun indexOfFrom :: "int list \<Rightarrow> int \<Rightarrow> int \<Rightarrow> int" where
  "indexOfFrom [] x i = - 1"
| "indexOfFrom (y # ys) x i = (if y = x then i else indexOfFrom ys x (i + 1))"

definition indexOf :: "int list \<Rightarrow> int \<Rightarrow> int" where
  "indexOf xs x = indexOfFrom xs x 0"

text \<open>\<open>xs.splice(idx, 1)\<close> for an index inside the array.\<close>

definition splice1 :: "int list \<Rightarrow> int \<Rightarrow> int list" where
  "splice1 xs idx = take (nat idx) xs @ drop (nat idx + 1) xs"

text \<open>
  An object used as a dictionary is an association list; \<open>Object.keys\<close> lists every key once.
\<close>

definition objectKeys :: "('k \<times> 'v) list \<Rightarrow> 'k list" where
  "objectKeys obj = remdups (map fst obj)"

section \<open>Request URLs\<close>

type_synonym voxel = "int \<times> int \<times> int"

definition voxelToUrlFragment :: "voxel \<Rightarrow> string" where
  "voxelToUrlFragment selectedEntity =
     (case selectedEntity of (e0, e1, e2) \<Rightarrow>
        let xPlane = '';x_plane='' @ numToString e0;
            yPlane = '';y_plane='' @ numToString e1;
            zPlane = '';z_plane='' @ numToString e2
        in xPlane @ yPlane @ zPlane)"

definition buildRequestUrl :: "string \<Rightarrow> int \<Rightarrow> int \<Rightarrow> voxel \<Rightarrow> string" where
  "buildRequestUrl urlVolumeData from to selectedEntity =
     (let spacialFragment = voxelToUrlFragment selectedEntity
      in ((((urlVolumeData @ ''from_idx='') @ numToString from) @ '';to_idx='') @ numToString to)
           @ spacialFragment)"

text \<open>\<open>selectedEntity + ""\<close>: the elements joined by commas.\<close>

definition voxelKey :: "voxel \<Rightarrow> string" where
  "voxelKey selectedEntity =
     (case selectedEntity of (e0, e1, e2) \<Rightarrow>
        numToString e0 @ '','' @ numToString e1 @ '','' @ numToString e2)"

section \<open>The \<open>tsRPC\<close> object and its collaborators\<close>

text \<open>
  A request handed to \<open>doAjaxCall\<close>: its URL and the two variables its callbacks close over,
  the section \<open>sect\<close> and the batch id \<open>privateID\<close> read when the request was made.
\<close>

record ajaxCall =
  callUrl :: string
  callSect :: int
  callPrivateID :: int

datatype task = StreamToBufferTask | FreeBufferTask

text \<open>
  The first twelve fields are those of the object literal (the callback
  \<open>getCurrentEntityAndTime\<close> and the worker blob are not data: the callback's answer is an
  argument of the functions that call it). The others record what the module asks of the
  browser: asynchronous requests, blocking reads, messages shown, live parser workers with
  the section their callback closes over, interval timers, and exceptions that leave a
  callback.
\<close>

record state =
  timeLength :: int
  bufferSize :: int
  bufferL2Size :: rat
  lookAhead :: int
  bufferL2 :: "(int \<times> jsval) list"
  urlVolumeData :: string
  urlBackgroundVolumeData :: string
  backgroundL2 :: "(string \<times> view) list"
  requestQueue :: "int list"
  batchID :: int
  streamToBufferID :: "int option"
  urlVoxelRegion :: "string option"
  ajaxCalls :: "ajaxCall list"
  regionCalls :: "string list"
  syncReads :: "string list"
  messages :: "(string \<times> string) list"
  workers :: "(int \<times> string) list"
  timers :: "(int \<times> task \<times> int) list"
  nextTimer :: int
  uncaught :: "error list"

definition tsRPC :: state where
  "tsRPC =
     \<lparr> timeLength = 0, bufferSize = 1, bufferL2Size = 1, lookAhead = 10, bufferL2 = [],
       urlVolumeData = [], urlBackgroundVolumeData = [], backgroundL2 = [],
       requestQueue = [], batchID = 0, streamToBufferID = None, urlVoxelRegion = None,
       ajaxCalls = [], regionCalls = [], syncReads = [], messages = [], workers = [],
       timers = [], nextTimer = 1, uncaught = [] \<rparr>"

text \<open>
  What the page and the browser provide: the blocking reader \<open>HLPR_readJSONfromFile\<close>,
  \<open>JSON.parse\<close> (\<open>None\<close> when it throws), and whether \<open>window.Worker\<close> exists.
\<close>

record env =
  readJSON :: "string \<Rightarrow> error + jsval"
  JSON_parse :: "string \<Rightarrow> jsval option"
  hasWorker :: bool

text \<open>The answer of \<open>getCurrentEntityAndTime()\<close>.\<close>

record point =
  currentTimePoint :: int
  selectedEntity :: voxel

type_synonym entitySize = "int \<times> int \<times> int \<times> int"

text \<open>\<open>window.setInterval\<close> hands out a fresh handle; \<open>window.clearInterval\<close> drops a timer.\<close>

definition setInterval :: "state \<Rightarrow> task \<Rightarrow> int \<Rightarrow> state \<times> int" where
  "setInterval s tk delay =
     (s\<lparr>timers := timers s @ [(nextTimer s, tk, delay)], nextTimer := nextTimer s + 1\<rparr>,
      nextTimer s)"

definition clearInterval :: "state \<Rightarrow> int option \<Rightarrow> state" where
  "clearInterval s h =
     (case h of None \<Rightarrow> s | Some i \<Rightarrow> s\<lparr>timers := filter (\<lambda>tm. fst tm \<noteq> i) (timers s)\<rparr>)"

section \<open>Initialisation and sizing\<close>

definition TSRPC_initNonStreaming ::
  "state \<Rightarrow> string \<Rightarrow> string \<Rightarrow> string option \<Rightarrow> entitySize \<Rightarrow> state" where
  "TSRPC_initNonStreaming s urlVolumeData' urlBackgroundVolumeData' urlVoxelRegion' entitySize =
     (case entitySize of (e0, e1, e2, e3) \<Rightarrow>
        s\<lparr>urlVolumeData := urlVolumeData',
          urlBackgroundVolumeData := urlBackgroundVolumeData',
          urlVoxelRegion := urlVoxelRegion',
          timeLength := e3\<rparr>)"

text \<open>
  The two \<open>while\<close> loops of \<open>_setupBuffersSize\<close>. Neither has a bound in the source, so a
  run that never leaves the loop is the value \<open>None\<close>.
\<close>

partial_function (option) growBufferSize :: "int \<Rightarrow> int \<Rightarrow> int option" where
  "growBufferSize tpSize bs =
     (if bs * tpSize \<le> 50000 then growBufferSize tpSize (bs + 1) else Some bs)"

partial_function (option) growBufferL2Size :: "int \<Rightarrow> int \<Rightarrow> rat \<Rightarrow> rat option" where
  "growBufferL2Size tpSize bs l2 =
     (if of_int (bs * tpSize) * l2 \<le> 157286400 then growBufferL2Size tpSize bs (l2 * 2)
      else Some l2)"

definition setupBuffersSize :: "state \<Rightarrow> entitySize \<Rightarrow> state option" where
  "setupBuffersSize s entitySize =
     (case entitySize of (e0, e1, e2, e3) \<Rightarrow>
        let tpSize = max (max e0 e1) e2;
            tpSize = tpSize * tpSize
        in case growBufferSize tpSize (bufferSize s) of
             None \<Rightarrow> None
           | Some bs \<Rightarrow>
               (case growBufferL2Size tpSize bs (bufferL2Size s) of
                  None \<Rightarrow> None
                | Some l2 \<Rightarrow> Some (s\<lparr>bufferSize := bs, bufferL2Size := l2 / 2\<rparr>)))"

definition TSRPC_initStreaming ::
  "state \<Rightarrow> string \<Rightarrow> string \<Rightarrow> entitySize \<Rightarrow> int \<Rightarrow> state option" where
  "TSRPC_initStreaming s urlVolumeData' urlBackgroundVolumeData' entitySize playbackRate =
     (let s1 = TSRPC_initNonStreaming s urlVolumeData' urlBackgroundVolumeData' None entitySize
      in case setupBuffersSize s1 entitySize of
           None \<Rightarrow> None
         | Some s2 \<Rightarrow> Some (fst (setInterval s2 FreeBufferTask (playbackRate * 20))))"

section \<open>Prefetching\<close>

text \<open>
  The test \<open>tsRPC.bufferL2[k]\<close> of the source (``we have that slice in memory''): the key is
  present and its value is truthy. Every array and every object is truthy, so for decoded
  segments this is the presence of the key.
\<close>

definition resident :: "state \<Rightarrow> int \<Rightarrow> bool" where
  "resident s k = (case map_of (bufferL2 s) k of None \<Rightarrow> False | Some j \<Rightarrow> truthy j)"

definition asyncRequest :: "state \<Rightarrow> string \<Rightarrow> int \<Rightarrow> state" where
  "asyncRequest s fileName sect =
     (let index = indexOf (requestQueue s) sect;
          privateID = batchID s
      in if index < 0
         then s\<lparr>requestQueue := requestQueue s @ [sect],
                ajaxCalls := ajaxCalls s
                  @ [\<lparr>callUrl = fileName, callSect = sect, callPrivateID = privateID\<rparr>]\<rparr>
         else s)"

text \<open>The function handed to \<open>parseAsync\<close> by the success handler; it closes over \<open>sect\<close>.\<close>

definition parsedCallback :: "state \<Rightarrow> int \<Rightarrow> jsval \<Rightarrow> state" where
  "parsedCallback s sect json =
     (let s1 = s\<lparr>bufferL2 := AList.update sect json (bufferL2 s)\<rparr>;
          idx = indexOf (requestQueue s1) sect
      in if idx > - 1 then s1\<lparr>requestQueue := splice1 (requestQueue s1) idx\<rparr> else s1)"

text \<open>
  With \<open>window.Worker\<close> the text goes to a new worker and the callback runs when the worker
  answers; without it the text is parsed and the callback runs at once. A \<open>JSON.parse\<close>
  that throws leaves the callback unrun.
\<close>

definition parseAsync :: "env \<Rightarrow> state \<Rightarrow> string \<Rightarrow> int \<Rightarrow> state" where
  "parseAsync e s data sect =
     (if hasWorker e then s\<lparr>workers := workers s @ [(sect, data)]\<rparr>
      else (case JSON_parse e data of
              None \<Rightarrow> s\<lparr>uncaught := uncaught s @ [SyntaxError]\<rparr>
            | Some json \<Rightarrow> parsedCallback s sect json))"

text \<open>The worker at position \<open>n\<close> posts its answer (or dies on a text that does not parse).\<close>

definition workerMessage :: "env \<Rightarrow> state \<Rightarrow> nat \<Rightarrow> state" where
  "workerMessage e s n =
     (if n < length (workers s)
      then (case workers s ! n of (sect, data) \<Rightarrow>
              let s1 = s\<lparr>workers := take n (workers s) @ drop (Suc n) (workers s)\<rparr>
              in (case JSON_parse e data of
                    None \<Rightarrow> s1
                  | Some json \<Rightarrow> parsedCallback s1 sect json))
      else s)"

text \<open>The \<open>success\<close> and \<open>error\<close> callbacks of the request made by \<open>asyncRequest\<close>.\<close>

definition ajaxSuccess :: "env \<Rightarrow> state \<Rightarrow> int \<Rightarrow> int \<Rightarrow> string \<Rightarrow> state" where
  "ajaxSuccess e s privateID sect response =
     (if privateID = batchID s then parseAsync e s response sect else s)"

definition ajaxError :: "state \<Rightarrow> state" where
  "ajaxError s =
     s\<lparr>messages := messages s @ [(''Could not retrieve data from the server!'', ''warningMessage'')]\<rparr>"

text \<open>The \<open>for\<close> loop of \<open>streamToBuffer\<close>, from the counter \<open>i\<close> on.\<close>

function scanSections :: "state \<Rightarrow> point \<Rightarrow> int \<Rightarrow> int \<Rightarrow> int \<Rightarrow> state" where
  "scanSections s pt currentSection maxSections i =
     (if i \<le> lookAhead s \<and> i < maxSections
      then (let toBufferSection = min (currentSection + i) maxSections
            in if \<not> resident s toBufferSection \<and> indexOf (requestQueue s) toBufferSection < 0
               then (let from = toBufferSection * bufferSize s;
                         to = min (from + bufferSize s) (timeLength s);
                         query = buildRequestUrl (urlVolumeData s) from to (selectedEntity pt)
                     in asyncRequest s query toBufferSection)
               else scanSections s pt currentSection maxSections (i + 1))
      else s)"
  by pat_completeness auto
termination
  by (relation "measure (\<lambda>(s, pt, currentSection, maxSections, i). nat (maxSections - i))") auto

declare scanSections.simps [simp del]

definition streamToBuffer :: "state \<Rightarrow> point \<Rightarrow> state" where
  "streamToBuffer s pt =
     (if int (length (requestQueue s)) < 2
      then (let currentSection = ceilDiv (currentTimePoint pt) (bufferSize s);
                maxSections = floorDiv (timeLength s) (bufferSize s)
            in scanSections s pt currentSection maxSections 0)
      else s)"

section \<open>Eviction\<close>

text \<open>The condition under which \<open>freeBuffer\<close> deletes the key \<open>idx\<close>.\<close>

definition evicts :: "state \<Rightarrow> int \<Rightarrow> int \<Rightarrow> bool" where
  "evicts s section idx =
     (numLess (Some (of_int idx)) (jsRem (of_int section - bufferL2Size s / 2) (timeLength s))
      \<or> numLess (jsRem (of_int section + bufferL2Size s / 2) (timeLength s)) (Some (of_int idx)))"

definition freeBuffer :: "state \<Rightarrow> point \<Rightarrow> state" where
  "freeBuffer s pt =
     (let section = floorDiv (currentTimePoint pt) (bufferSize s);
          bufferedElements = length (objectKeys (bufferL2 s))
      in if of_nat bufferedElements > bufferL2Size s
         then s\<lparr>bufferL2 :=
                  fold (\<lambda>idx b. if evicts s section idx then AList.delete idx b else b)
                       (objectKeys (bufferL2 s)) (bufferL2 s)\<rparr>
         else s)"

section \<open>Queries\<close>

definition getViewAtTimeNoCache ::
  "env \<Rightarrow> state \<Rightarrow> int \<Rightarrow> voxel \<Rightarrow> string \<Rightarrow> (error + view) \<times> state" where
  "getViewAtTimeNoCache e s t selectedEntity' urlVolumeData' =
     (let from = t;
          to = min (1 + t) (timeLength s);
          query = buildRequestUrl urlVolumeData' from to selectedEntity';
          s1 = s\<lparr>syncReads := syncReads s @ [query]\<rparr>
      in (case readJSON e query of
            Inl err \<Rightarrow> (Inl err, s1)
          | Inr buffer \<Rightarrow> (viewAt buffer 0, s1)))"

definition TSRPC_getBackgroundView :: "env \<Rightarrow> state \<Rightarrow> voxel \<Rightarrow> (error + view) \<times> state" where
  "TSRPC_getBackgroundView e s selectedEntity' =
     (let key = voxelKey selectedEntity'
      in (case map_of (backgroundL2 s) key of
            Some v \<Rightarrow> (Inr v, s)
          | None \<Rightarrow>
              (case getViewAtTimeNoCache e s 0 selectedEntity' (urlBackgroundVolumeData s) of
                 (Inl err, s1) \<Rightarrow> (Inl err, s1)
               | (Inr ret, s1) \<Rightarrow> (Inr ret, s1\<lparr>backgroundL2 := [(key, ret)]\<rparr>))))"

definition TSRPC_getViewAtTime :: "env \<Rightarrow> state \<Rightarrow> int \<Rightarrow> voxel \<Rightarrow> (error + view) \<times> state" where
  "TSRPC_getViewAtTime e s t selectedEntity' =
     (let section = floorDiv t (bufferSize s)
      in (case map_of (bufferL2 s) section of
            None \<Rightarrow> getViewAtTimeNoCache e s t selectedEntity' (urlVolumeData s)
          | Some buffer \<Rightarrow>
              if truthy buffer then (viewAt buffer (intRem t (bufferSize s)), s)
              else getViewAtTimeNoCache e s t selectedEntity' (urlVolumeData s)))"

section \<open>Starting and stopping\<close>

text \<open>\<open>!tsRPC.streamToBufferID\<close>: the field is \<open>null\<close> or the handle \<open>0\<close>.\<close>

definition noTimer :: "int option \<Rightarrow> bool" where
  "noTimer h = (case h of None \<Rightarrow> True | Some i \<Rightarrow> i = 0)"

definition TSRPC_startBuffering :: "state \<Rightarrow> state" where
  "TSRPC_startBuffering s =
     (if noTimer (streamToBufferID s) \<and> bufferSize s > 1
      then (let s1 = s\<lparr>batchID := batchID s + 1\<rparr>;
                s2 = s1\<lparr>requestQueue := []\<rparr>;
                s3 = s2\<lparr>bufferL2 := []\<rparr>
            in (case setInterval s3 StreamToBufferTask 0 of
                  (s4, h) \<Rightarrow> s4\<lparr>streamToBufferID := Some h\<rparr>))
      else s)"

definition TSRPC_stopBuffering :: "state \<Rightarrow> state" where
  "TSRPC_stopBuffering s = (clearInterval s (streamToBufferID s))\<lparr>streamToBufferID := None\<rparr>"

definition TSRPC_getVoxelRegion :: "state \<Rightarrow> voxel \<Rightarrow> state" where
  "TSRPC_getVoxelRegion s selectedEntity' =
     s\<lparr>regionCalls := regionCalls s
         @ [(case urlVoxelRegion s of None \<Rightarrow> ''null'' | Some u \<Rightarrow> u)
            @ voxelToUrlFragment selectedEntity']\<rparr>"

section \<open>Runs of the module\<close>

text \<open>
  Everything that can happen to the object: a call of an exported function, a firing of
  one of the two timers with the position the page reports, and the arrival of an answer
  to a request (with the variables its callbacks close over) or of a worker's message.
  A step is \<open>None\<close> only when the call never returns.
\<close>

datatype event =
    InitNonStreaming string string "string option" entitySize
  | InitStreaming string string entitySize int
  | StartBuffering
  | StopBuffering
  | Tick point
  | Sweep point
  | Success int int string
  | Failure
  | WorkerDone nat
  | GetViewAtTime int voxel
  | GetBackgroundView voxel
  | GetVoxelRegion voxel

fun step :: "env \<Rightarrow> state \<Rightarrow> event \<Rightarrow> state option" where
  "step e s (InitNonStreaming u b r sz) = Some (TSRPC_initNonStreaming s u b r sz)"
| "step e s (InitStreaming u b sz rate) = TSRPC_initStreaming s u b sz rate"
| "step e s StartBuffering = Some (TSRPC_startBuffering s)"
| "step e s StopBuffering = Some (TSRPC_stopBuffering s)"
| "step e s (Tick pt) = Some (streamToBuffer s pt)"
| "step e s (Sweep pt) = Some (freeBuffer s pt)"
| "step e s (Success privateID sect response) = Some (ajaxSuccess e s privateID sect response)"
| "step e s Failure = Some (ajaxError s)"
| "step e s (WorkerDone n) = Some (workerMessage e s n)"
| "step e s (GetViewAtTime t v) = Some (snd (TSRPC_getViewAtTime e s t v))"
| "step e s (GetBackgroundView v) = Some (snd (TSRPC_getBackgroundView e s v))"
| "step e s (GetVoxelRegion v) = Some (TSRPC_getVoxelRegion s v)"

fun run :: "env \<Rightarrow> state \<Rightarrow> event list \<Rightarrow> state option" where
  "run e s [] = Some s"
| "run e s (ev # evs) = (case step e s ev of None \<Rightarrow> None | Some s' \<Rightarrow> run e s' evs)"

declare growBufferSize.simps [code]
declare growBufferL2Size.simps [code]

section \<open>The scheduler's rule, as the specification words it\<close>

text \<open>
  The sections one tick scans: \<open>lookAhead + 1\<close> candidates from \<open>currentSection\<close> on, each
  capped at \<open>maxSections\<close>, and no more candidates than \<open>maxSections\<close>.
\<close>

definition candidateSections :: "state \<Rightarrow> point \<Rightarrow> int list" where
  "candidateSections s pt =
     (let currentSection = ceilDiv (currentTimePoint pt) (bufferSize s);
          maxSections = floorDiv (timeLength s) (bufferSize s)
      in map (\<lambda>i. min (currentSection + i) maxSections) [0 .. min (lookAhead s) (maxSections - 1)])"

text \<open>A candidate qualifies when it is neither resident nor in flight.\<close>

definition eligible :: "state \<Rightarrow> int \<Rightarrow> bool" where
  "eligible s c = (\<not> resident s c \<and> c \<notin> set (requestQueue s))"

definition firstCandidate :: "state \<Rightarrow> point \<Rightarrow> int option" where
  "firstCandidate s pt = find (eligible s) (candidateSections s pt)"

text \<open>The request for one section, tagged with the batch id of the moment.\<close>

definition sectionCall :: "state \<Rightarrow> point \<Rightarrow> int \<Rightarrow> ajaxCall" where
  "sectionCall s pt k =
     \<lparr> callUrl = buildRequestUrl (urlVolumeData s) (k * bufferSize s)
                   (min (k * bufferSize s + bufferSize s) (timeLength s)) (selectedEntity pt),
       callSect = k,
       callPrivateID = batchID s \<rparr>"

text \<open>What one tick may issue: nothing with two requests in flight, else the first candidate.\<close>

definition issuedCalls :: "state \<Rightarrow> point \<Rightarrow> ajaxCall list" where
  "issuedCalls s pt =
     (if length (requestQueue s) < 2
      then (case firstCandidate s pt of None \<Rightarrow> [] | Some k \<Rightarrow> [sectionCall s pt k])
      else [])"

text \<open>The sizes every run keeps: at least one time point per segment, a positive budget.\<close>

definition sized :: "state \<Rightarrow> bool" where
  "sized s = (1 \<le> bufferSize s \<and> 0 < bufferL2Size s)"

section \<open>Sample data\<close>

definition demoBuffer :: jsval where
  "demoBuffer = JArr [JArr [JNum 1, JNum 2], JArr [JNum 3, JNum 4], JArr [JNum 5, JNum 6]]"

definition demoEnv :: env where
  "demoEnv = \<lparr> readJSON = (\<lambda>u. Inr demoBuffer), JSON_parse = (\<lambda>d. Some demoBuffer),
               hasWorker = False \<rparr>"

definition workerEnv :: env where
  "workerEnv = \<lparr> readJSON = (\<lambda>u. Inr demoBuffer), JSON_parse = (\<lambda>d. Some demoBuffer),
                 hasWorker = True \<rparr>"

definition failingEnv :: env where
  "failingEnv = \<lparr> readJSON = (\<lambda>u. Inl TransportFailure), JSON_parse = (\<lambda>d. None),
                  hasWorker = False \<rparr>"

definition nullEnv :: env where
  "nullEnv = \<lparr> readJSON = (\<lambda>u. Inr JNull), JSON_parse = (\<lambda>d. Some JNull),
               hasWorker = False \<rparr>"

definition demoPoint :: point where
  "demoPoint = \<lparr> currentTimePoint = 0, selectedEntity = (1, 2, 3) \<rparr>"

definition demoPoint10 :: point where
  "demoPoint10 = \<lparr> currentTimePoint = 10, selectedEntity = (1, 2, 3) \<rparr>"

text \<open>
  The object after \<open>TSRPC_initStreaming\<close> for a volume of 105 x 105 x 105 voxels and 20 time
  points: five time points per segment, 2048 segments at most.
\<close>

definition demoState :: state where
  "demoState =
     tsRPC\<lparr>timeLength := 20, bufferSize := 5, bufferL2Size := 2048,
           urlVolumeData := ''/vol?'', urlBackgroundVolumeData := ''/bg?'',
           timers := [(1, FreeBufferTask, 1000)], nextTimer := 2\<rparr>"

definition demoStarted :: state where
  "demoStarted = TSRPC_startBuffering demoState"

definition demoFetching :: state where
  "demoFetching = streamToBuffer demoStarted demoPoint"

definition demoTwoInFlight :: state where
  "demoTwoInFlight = streamToBuffer demoFetching demoPoint"

definition demoRestarted :: state where
  "demoRestarted =
     streamToBuffer (TSRPC_startBuffering (TSRPC_stopBuffering demoFetching)) demoPoint"

definition demoTrace1 :: "event list" where
  "demoTrace1 = [InitStreaming ''/vol?'' ''/bg?'' (105, 105, 105, 20) 50, StartBuffering,
                 Tick demoPoint]"

definition demoTrace2 :: "event list" where
  "demoTrace2 = [InitStreaming ''/vol?'' ''/bg?'' (105, 105, 105, 20) 50, StartBuffering,
                 Tick demoPoint, Tick demoPoint]"

text \<open>Sections 2 and 3 in memory while the playback is at time point 10, in section 2.\<close>

definition demoAhead :: state where
  "demoAhead = demoStarted\<lparr>bufferL2 := [(2, demoBuffer), (3, demoBuffer)]\<rparr>"

text \<open>The background view of voxel (1, 2, 3) has been asked for once.\<close>

definition demoBackground :: state where
  "demoBackground = snd (TSRPC_getBackgroundView demoEnv demoState (1, 2, 3))"

text \<open>
  A long recording (20000 time points, the same volume) played at time point 5120, which
  is in section 1024, with the 2049 sections 0 to 2048 in memory, or the 3001 sections
  0 to 3000.
\<close>

definition fullWindow :: state where
  "fullWindow =
     demoState\<lparr>timeLength := 20000, bufferL2 := map (\<lambda>k. (k, demoBuffer)) [0 .. 2048]\<rparr>"

definition overfull :: state where
  "overfull =
     demoState\<lparr>timeLength := 20000, bufferL2 := map (\<lambda>k. (k, demoBuffer)) [0 .. 3000]\<rparr>"

definition midPoint :: point where
  "midPoint = \<lparr> currentTimePoint = 5120, selectedEntity = (1, 2, 3) \<rparr>"

section \<open>Evaluating the sample runs\<close>

lemmas num_simps = numToString_def natToString.simps digitChar_def

lemmas url_simps = buildRequestUrl_def voxelToUrlFragment_def num_simps

lemma init_demo:
  "TSRPC_initStreaming tsRPC ''/vol?'' ''/bg?'' (105, 105, 105, 20) 50 = Some demoState"
  by (simp add: TSRPC_initStreaming_def TSRPC_initNonStreaming_def setupBuffersSize_def
      tsRPC_def demoState_def growBufferSize.simps growBufferL2Size.simps setInterval_def)

lemma demoStarted_eq:
  "demoStarted =
     demoState\<lparr>batchID := 1,
               timers := [(1, FreeBufferTask, 1000), (2, StreamToBufferTask, 0)],
               nextTimer := 3, streamToBufferID := Some 2\<rparr>"
  by (simp add: demoStarted_def TSRPC_startBuffering_def demoState_def tsRPC_def noTimer_def
      setInterval_def)

lemma demoFetching_eq:
  "demoFetching =
     demoStarted\<lparr>requestQueue := [0],
       ajaxCalls := [\<lparr>callUrl = ''/vol?from_idx=0;to_idx=5;x_plane=1;y_plane=2;z_plane=3'',
                      callSect = 0, callPrivateID = 1\<rparr>]\<rparr>"
  by (simp add: demoFetching_def demoStarted_eq streamToBuffer_def demoState_def tsRPC_def
      scanSections.simps ceilDiv_def floorDiv_def demoPoint_def resident_def indexOf_def
      asyncRequest_def url_simps)

lemma demoTwoInFlight_eq:
  "demoTwoInFlight =
     demoStarted\<lparr>requestQueue := [0, 1],
       ajaxCalls := [\<lparr>callUrl = ''/vol?from_idx=0;to_idx=5;x_plane=1;y_plane=2;z_plane=3'',
                      callSect = 0, callPrivateID = 1\<rparr>,
                    \<lparr>callUrl = ''/vol?from_idx=5;to_idx=10;x_plane=1;y_plane=2;z_plane=3'',
                      callSect = 1, callPrivateID = 1\<rparr>]\<rparr>"
  by (simp add: demoTwoInFlight_def demoFetching_eq demoStarted_eq streamToBuffer_def
      demoState_def tsRPC_def scanSections.simps ceilDiv_def floorDiv_def demoPoint_def
      resident_def indexOf_def asyncRequest_def url_simps)

lemma demoRestarted_eq:
  "demoRestarted =
     demoState\<lparr>batchID := 2,
       timers := [(1, FreeBufferTask, 1000), (3, StreamToBufferTask, 0)],
       nextTimer := 4, streamToBufferID := Some 3, requestQueue := [0],
       ajaxCalls := [\<lparr>callUrl = ''/vol?from_idx=0;to_idx=5;x_plane=1;y_plane=2;z_plane=3'',
                      callSect = 0, callPrivateID = 1\<rparr>,
                    \<lparr>callUrl = ''/vol?from_idx=0;to_idx=5;x_plane=1;y_plane=2;z_plane=3'',
                      callSect = 0, callPrivateID = 2\<rparr>]\<rparr>"
  by (simp add: demoRestarted_def demoFetching_eq demoStarted_eq streamToBuffer_def
      demoState_def tsRPC_def scanSections.simps TSRPC_stopBuffering_def clearInterval_def
      TSRPC_startBuffering_def noTimer_def setInterval_def ceilDiv_def floorDiv_def
      demoPoint_def resident_def indexOf_def asyncRequest_def url_simps)

lemma run_demoTrace1: "run demoEnv tsRPC demoTrace1 = Some demoFetching"
  by (simp add: demoTrace1_def init_demo demoFetching_def demoStarted_def)

lemma run_demoTrace2: "run demoEnv tsRPC demoTrace2 = Some demoTwoInFlight"
  by (simp add: demoTrace2_def init_demo demoTwoInFlight_def demoFetching_def demoStarted_def)

lemma demoBackground_eq:
  "demoBackground =
     demoState\<lparr>backgroundL2 := [(''1,2,3'', (JNum 1, JNum 3, JNum 5))],
               syncReads := [''/bg?from_idx=0;to_idx=1;x_plane=1;y_plane=2;z_plane=3'']\<rparr>"
  by (simp add: demoBackground_def TSRPC_getBackgroundView_def voxelKey_def demoState_def
      tsRPC_def getViewAtTimeNoCache_def demoEnv_def demoBuffer_def viewAt_def jsGet_def
      url_simps)

text \<open>
  A fresh answer for section 0 is parsed, stored under its section and taken out of the
  in-flight set.
\<close>

lemma fresh_response_stored:
  "bufferL2 (ajaxSuccess demoEnv demoRestarted 2 0 ''[[1,2],[3,4],[5,6]]'') = [(0, demoBuffer)]
   \<and> requestQueue (ajaxSuccess demoEnv demoRestarted 2 0 ''[[1,2],[3,4],[5,6]]'') = []"
  by (simp add: demoRestarted_eq demoState_def tsRPC_def ajaxSuccess_def parseAsync_def
      demoEnv_def parsedCallback_def indexOf_def splice1_def)

section \<open>Request URLs\<close>

text \<open>
  Claim C8. For every base URL, indices \<open>from\<close> and \<open>to\<close> and voxel \<open>(vx, vy, vz)\<close>, the
  request URL is exactly the base URL followed by \<open>from_idx=\<close>, \<open>from\<close>, \<open>;to_idx=\<close>,
  \<open>to\<close>, \<open>;x_plane=\<close>, \<open>vx\<close>, \<open>;y_plane=\<close>, \<open>vy\<close>, \<open>;z_plane=\<close>, \<open>vz\<close>, the numbers in
  decimal; it depends on nothing but these arguments.
\<close>

theorem buildRequestUrl_format:
  "buildRequestUrl baseUrl from to (vx, vy, vz) =
     baseUrl @ ''from_idx='' @ numToString from @ '';to_idx='' @ numToString to
       @ '';x_plane='' @ numToString vx @ '';y_plane='' @ numToString vy
       @ '';z_plane='' @ numToString vz"
  by (simp add: buildRequestUrl_def voxelToUrlFragment_def)

theorem buildRequestUrl_format_witness:
  "buildRequestUrl ''/vol?'' 7 8 (1, 2, 3)
     = ''/vol?from_idx=7;to_idx=8;x_plane=1;y_plane=2;z_plane=3''"
  using buildRequestUrl_format [of "''/vol?''" 7 8 1 2 3] by (simp add: num_simps)

section \<open>Answers that arrive after a restart\<close>

text \<open>
  Claim C1. When the batch id a request captured differs from the batch id of the object at
  the moment its answer arrives, handling the answer leaves \<open>bufferL2\<close> exactly as it was;
  no parser worker is started either, so nothing is left behind that would write later.
\<close>

theorem stale_response_keeps_cache:
  assumes "privateID \<noteq> batchID s"
  shows "bufferL2 (ajaxSuccess e s privateID sect response) = bufferL2 s
         \<and> workers (ajaxSuccess e s privateID sect response) = workers s"
  using assms by (simp add: ajaxSuccess_def)

text \<open>
  The run used below: buffering starts (batch 1), section 0 is requested, buffering
  stops and starts again (batch 2, empty cache), section 0 is requested again, and then
  the answer to the first request arrives.
\<close>

theorem stale_response_keeps_cache_witness:
  "1 \<noteq> batchID demoRestarted
   \<and> bufferL2 (ajaxSuccess demoEnv demoRestarted 1 0 ''[[1,2],[3,4],[5,6]]'') = []
   \<and> workers (ajaxSuccess demoEnv demoRestarted 1 0 ''[[1,2],[3,4],[5,6]]'') = []"
proof -
  have h: "1 \<noteq> batchID demoRestarted" by (simp add: demoRestarted_eq)
  from stale_response_keeps_cache [OF h, of demoEnv 0 "''[[1,2],[3,4],[5,6]]''"] h
  show ?thesis by (simp add: demoRestarted_eq demoState_def tsRPC_def)
qed




text \<open>
  The batch id is compared when the answer arrives, not when its text has been parsed.
  With a parser worker, an answer that arrives in time and is parsed after a restart is
  stored in the cache of the new batch.
\<close>

lemma late_decode_writes_cache:
  "batchID (TSRPC_startBuffering (TSRPC_stopBuffering (ajaxSuccess workerEnv demoFetching 1 0 ''[]''))) = 2
   \<and> bufferL2 (TSRPC_startBuffering (TSRPC_stopBuffering (ajaxSuccess workerEnv demoFetching 1 0 ''[]''))) = []
   \<and> bufferL2 (workerMessage workerEnv
        (TSRPC_startBuffering (TSRPC_stopBuffering (ajaxSuccess workerEnv demoFetching 1 0 ''[]''))) 0)
       = [(0, demoBuffer)]"
  by (simp add: ajaxSuccess_def parseAsync_def workerEnv_def demoFetching_eq demoStarted_eq
      demoState_def tsRPC_def TSRPC_stopBuffering_def clearInterval_def TSRPC_startBuffering_def
      noTimer_def setInterval_def workerMessage_def parsedCallback_def indexOf_def)

section \<open>Requests that fail\<close>

text \<open>
  Claim C7 says that the error handler shows a warning and takes the section out of the
  in-flight set. With section 0 in flight, the handler of the source shows the warning
  and leaves section 0 in the set.
\<close>

theorem transport_failure_keeps_entry:
  "requestQueue demoFetching = [0]
   \<and> requestQueue (ajaxError demoFetching) = [0]
   \<and> messages (ajaxError demoFetching)
       = [(''Could not retrieve data from the server!'', ''warningMessage'')]"
  by (simp add: demoFetching_eq demoStarted_eq demoState_def tsRPC_def ajaxError_def)

text \<open>The handler never touches the set, and two failed requests stop every later tick.\<close>

lemma ajaxError_queue: "requestQueue (ajaxError s) = requestQueue s"
  by (simp add: ajaxError_def)

lemma two_failures_block_prefetch:
  "requestQueue (ajaxError (ajaxError demoTwoInFlight)) = [0, 1]
   \<and> streamToBuffer (ajaxError (ajaxError demoTwoInFlight)) pt
       = ajaxError (ajaxError demoTwoInFlight)"
  by (simp add: streamToBuffer_def ajaxError_def demoTwoInFlight_eq)

section \<open>Sizing\<close>

text \<open>Neither loop ever lowers its variable, and the first one never ends on an empty plane.\<close>

lemma growBufferSize_ge:
  assumes "growBufferSize tp b = Some y"
  shows "b \<le> y"
proof (rule growBufferSize.raw_induct [where P = "\<lambda>tp b y. b \<le> y", OF _ assms])
  fix f :: "int \<Rightarrow> int \<Rightarrow> int option" and tp b y
  assume IH: "\<And>tp b y. f tp b = Some y \<Longrightarrow> b \<le> y"
    and eq: "(if b * tp \<le> 50000 then f tp (b + 1) else Some b) = Some y"
  show "b \<le> y"
  proof (cases "b * tp \<le> 50000")
    case True
    with eq have "f tp (b + 1) = Some y" by simp
    from IH [OF this] show ?thesis by simp
  next
    case False
    with eq show ?thesis by simp
  qed
qed

lemma growBufferL2Size_pos:
  assumes "growBufferL2Size tp b l = Some y" and "0 < l"
  shows "0 < y"
proof -
  have "0 < l \<longrightarrow> 0 < y"
  proof (rule growBufferL2Size.raw_induct [where P = "\<lambda>tp b l y. 0 < l \<longrightarrow> 0 < y", OF _ assms(1)])
    fix f :: "int \<Rightarrow> int \<Rightarrow> rat \<Rightarrow> rat option" and tp b l y
    assume IH: "\<And>tp b l y. f tp b l = Some y \<Longrightarrow> 0 < l \<longrightarrow> 0 < y"
      and eq: "(if of_int (b * tp) * l \<le> 157286400 then f tp b (l * 2) else Some l) = Some y"
    show "0 < l \<longrightarrow> 0 < y"
    proof (cases "of_int (b * tp) * l \<le> 157286400")
      case True
      with eq have "f tp b (l * 2) = Some y" by simp
      from IH [OF this] show ?thesis by simp
    next
      case False
      with eq show ?thesis by simp
    qed
  qed
  with assms(2) show ?thesis by simp
qed

lemma growBufferSize_diverges:
  assumes "tp \<le> 0" and "0 \<le> b"
  shows "growBufferSize tp b = None"
proof (cases "growBufferSize tp b")
  case None
  then show ?thesis .
next
  case (Some y)
  have "tp \<le> 0 \<longrightarrow> 0 \<le> b \<longrightarrow> False"
  proof (rule growBufferSize.raw_induct
      [where P = "\<lambda>tp b y. tp \<le> 0 \<longrightarrow> 0 \<le> b \<longrightarrow> False", OF _ Some])
    fix f :: "int \<Rightarrow> int \<Rightarrow> int option" and tp b y
    assume IH: "\<And>tp b y. f tp b = Some y \<Longrightarrow> tp \<le> 0 \<longrightarrow> 0 \<le> b \<longrightarrow> False"
      and eq: "(if b * tp \<le> 50000 then f tp (b + 1) else Some b) = Some y"
    show "tp \<le> 0 \<longrightarrow> 0 \<le> b \<longrightarrow> False"
    proof (intro impI)
      assume tp: "tp \<le> 0" and b: "0 \<le> b"
      then have "b * tp \<le> 0" by (simp add: mult_nonneg_nonpos)
      with eq have "f tp (b + 1) = Some y" by simp
      from IH [OF this] tp b show False by simp
    qed
  qed
  with assms show ?thesis by simp
qed

lemma setupBuffersSize_zero_volume: "setupBuffersSize tsRPC (0, 0, 0, 20) = None"
  by (simp add: setupBuffersSize_def tsRPC_def growBufferSize_diverges)

text \<open>
  On a volume whose largest spatial dimension is between 1 and 12541, both loops end, the
  segment size is at least 1 and the budget is a power of two.
\<close>

lemma growBufferSize_returns:
  assumes "1 \<le> tp" and "1 \<le> b"
  shows "\<exists>y. growBufferSize tp b = Some y \<and> b \<le> y \<and> 50000 < y * tp
             \<and> (y = b \<or> (y - 1) * tp \<le> 50000)"
  using assms(2)
proof (induction "nat (50001 - b * tp)" arbitrary: b rule: less_induct)
  case less
  show ?case
  proof (cases "b * tp \<le> 50000")
    case False
    then have "growBufferSize tp b = Some b" by (subst growBufferSize.simps) simp
    with False show ?thesis by simp
  next
    case True
    have "b * tp < (b + 1) * tp" using assms(1) by (simp add: distrib_right)
    with True have m: "nat (50001 - (b + 1) * tp) < nat (50001 - b * tp)" by simp
    from less.prems have "1 \<le> b + 1" by simp
    from less.hyps [OF m this] obtain y where
      y: "growBufferSize tp (b + 1) = Some y" "b + 1 \<le> y" "50000 < y * tp"
         "y = b + 1 \<or> (y - 1) * tp \<le> 50000"
      by blast
    from True have "growBufferSize tp b = growBufferSize tp (b + 1)"
      by (subst growBufferSize.simps) simp
    moreover from y(4) True have "(y - 1) * tp \<le> 50000" by auto
    ultimately show ?thesis using y by auto
  qed
qed

lemma growBufferL2Size_returns:
  fixes l :: rat
  assumes "157286400 < of_int (b * tp) * l * 2 ^ n"
  shows "\<exists>k. growBufferL2Size tp b l = Some (l * 2 ^ k)
             \<and> (of_int (b * tp) * l \<le> 157286400 \<longrightarrow> 1 \<le> k)"
  using assms
proof (induction n arbitrary: l)
  case 0
  then have "growBufferL2Size tp b l = Some l" by (subst growBufferL2Size.simps) simp
  with 0 show ?case by (intro exI [of _ 0]) simp
next
  case (Suc n)
  show ?case
  proof (cases "of_int (b * tp) * l \<le> 157286400")
    case False
    then have "growBufferL2Size tp b l = Some l" by (subst growBufferL2Size.simps) simp
    with False show ?thesis by (intro exI [of _ 0]) simp
  next
    case True
    from Suc.prems have "157286400 < of_int (b * tp) * (l * 2) * 2 ^ n"
      by (simp add: mult.assoc mult.left_commute)
    from Suc.IH [OF this] obtain k where
      k: "growBufferL2Size tp b (l * 2) = Some (l * 2 * 2 ^ k)" by blast
    from True have "growBufferL2Size tp b l = growBufferL2Size tp b (l * 2)"
      by (subst growBufferL2Size.simps) simp
    with k have "growBufferL2Size tp b l = Some (l * 2 ^ Suc k)" by (simp add: mult.assoc)
    then show ?thesis by (intro exI [of _ "Suc k"]) simp
  qed
qed

lemma setupBuffersSize_ordinary_volume:
  assumes lo: "1 \<le> max (max e0 e1) e2" and hi: "max (max e0 e1) e2 \<le> 12541"
  shows "\<exists>s' k. setupBuffersSize tsRPC (e0, e1, e2, e3) = Some s'
                \<and> 1 \<le> bufferSize s' \<and> bufferL2Size s' = 2 ^ k"
proof -
  define d where "d = max (max e0 e1) e2"
  define tp where "tp = d * d"
  from lo have d1: "1 \<le> d" by (simp add: d_def)
  from hi have d2: "d \<le> 12541" by (simp add: d_def)
  from d1 have tp1: "1 \<le> tp" unfolding tp_def by (metis mult_mono mult_1 zero_le_one order_trans)
  from d1 d2 have "d * d \<le> 12541 * 12541" by (intro mult_mono) auto
  then have tp2: "tp \<le> 157286400" by (simp add: tp_def)
  from growBufferSize_returns [OF tp1, of 1] obtain bs where
    bs: "growBufferSize tp 1 = Some bs" "1 \<le> bs" "50000 < bs * tp"
        "bs = 1 \<or> (bs - 1) * tp \<le> 50000"
    by auto
  have c1: "1 \<le> bs * tp" using bs(3) by simp
  have c2: "bs * tp \<le> 157286400"
  proof (cases "bs = 1")
    case True
    with tp2 show ?thesis by simp
  next
    case False
    with bs(4) have le: "(bs - 1) * tp \<le> 50000" by simp
    from False bs(2) have "1 \<le> bs - 1" by simp
    with tp1 have "tp \<le> (bs - 1) * tp" by (simp add: mult_le_cancel_right1)
    with le have "tp \<le> 50000" by simp
    moreover have "bs * tp = (bs - 1) * tp + tp" by (simp add: algebra_simps)
    ultimately show ?thesis using le by simp
  qed
  from c1 have "(of_int 1 :: rat) \<le> of_int (bs * tp)" by (simp only: of_int_le_iff)
  then have c1r: "(1 :: rat) \<le> of_int (bs * tp)" by simp
  have "(157286400 :: rat) < 1 * 2 ^ 28" by simp
  also have "\<dots> \<le> of_int (bs * tp) * 2 ^ 28"
    using c1r by (intro mult_right_mono) simp_all
  finally have "(157286400 :: rat) < of_int (bs * tp) * 1 * 2 ^ 28" by simp
  from growBufferL2Size_returns [OF this] c2 obtain k where
    k: "growBufferL2Size tp bs 1 = Some (1 * 2 ^ k)" "1 \<le> k"
    by (auto simp del: of_int_mult)
  from k(2) obtain j where j: "k = Suc j" by (cases k) auto
  have "setupBuffersSize tsRPC (e0, e1, e2, e3)
          = Some (tsRPC\<lparr>bufferSize := bs, bufferL2Size := 2 ^ j\<rparr>)"
    using bs(1) k(1) j by (simp add: setupBuffersSize_def tsRPC_def tp_def d_def Let_def)
  with bs(2) show ?thesis by auto
qed

text \<open>
  Claim C9 says that for every dimension vector both sizes are integers of at least 1 after
  the computation. A plane of 12542 x 12542 values is larger than the memory budget, so
  the second loop does not run at all, and the halving that follows it leaves
  \<open>bufferL2Size\<close> at one half.
\<close>

theorem setupBuffersSize_half:
  "setupBuffersSize tsRPC (12542, 12542, 12542, 20) = Some (tsRPC\<lparr>bufferL2Size := 1 / 2\<rparr>)"
  by (simp add: setupBuffersSize_def tsRPC_def growBufferSize.simps growBufferL2Size.simps)

section \<open>The scheduler\<close>

text \<open>
  \<open>indexOf\<close> is negative exactly when the element is absent, so the loop of
  \<open>streamToBuffer\<close> is a search for the first eligible candidate.
\<close>

text \<open>
  A key whose value is an array or an object is resident. A key whose value is falsy
  (\<open>null\<close>, \<open>false\<close>, \<open>0\<close>, the empty string) fails the test of the source, although the
  key is there; no decoded segment is such a value.
\<close>

lemma resident_segment:
  "map_of (bufferL2 s) k = Some (JArr xs) \<Longrightarrow> resident s k"
  "map_of (bufferL2 s) k = Some (JObj kvs) \<Longrightarrow> resident s k"
  by (simp_all add: resident_def)

lemma resident_key: "resident s k \<Longrightarrow> k \<in> set (objectKeys (bufferL2 s))"
  by (auto simp: resident_def objectKeys_def split: option.splits dest: map_of_SomeD
      intro!: image_eqI [where x = "(k, _)"])

lemma falsy_value_not_resident:
  "\<not> resident (demoStarted\<lparr>bufferL2 := [(0, JNull)]\<rparr>) 0"
  by (simp add: resident_def)

lemma indexOfFrom_absent: "x \<notin> set xs \<Longrightarrow> indexOfFrom xs x i = - 1"
  by (induction xs arbitrary: i) auto

lemma indexOfFrom_present: "x \<in> set xs \<Longrightarrow> i \<le> indexOfFrom xs x i"
proof (induction xs arbitrary: i)
  case Nil
  then show ?case by simp
next
  case (Cons y ys)
  show ?case
  proof (cases "y = x")
    case True
    then show ?thesis by simp
  next
    case False
    with Cons.prems have "x \<in> set ys" by simp
    from Cons.IH [OF this, of "i + 1"] False show ?thesis by simp
  qed
qed

lemma indexOf_neg_iff: "(indexOf xs x < 0) = (x \<notin> set xs)"
proof (cases "x \<in> set xs")
  case True
  from indexOfFrom_present [OF this, of 0] True show ?thesis by (simp add: indexOf_def)
next
  case False
  then show ?thesis by (simp add: indexOf_def indexOfFrom_absent)
qed

lemma length_splice1: "length (splice1 xs idx) \<le> length xs"
  by (simp add: splice1_def)

lemma asyncRequest_calls:
  "ajaxCalls (asyncRequest s f k)
     = ajaxCalls s @ (if k \<in> set (requestQueue s) then []
                      else [\<lparr>callUrl = f, callSect = k, callPrivateID = batchID s\<rparr>])"
  by (simp add: asyncRequest_def indexOf_neg_iff)

lemma asyncRequest_queue:
  "requestQueue (asyncRequest s f k)
     = requestQueue s @ (if k \<in> set (requestQueue s) then [] else [k])"
  by (simp add: asyncRequest_def indexOf_neg_iff)

lemma scanSections_find:
  "scanSections s pt cs ms i =
     (case find (eligible s) (map (\<lambda>j. min (cs + j) ms) [i .. min (lookAhead s) (ms - 1)]) of
        None \<Rightarrow> s
      | Some k \<Rightarrow> asyncRequest s (callUrl (sectionCall s pt k)) k)"
proof (induction s pt cs ms i rule: scanSections.induct)
  case (1 s pt cs ms i)
  show ?case
  proof (cases "i \<le> lookAhead s \<and> i < ms")
    case False
    then have "[i .. min (lookAhead s) (ms - 1)] = []" by auto
    with False show ?thesis by (subst scanSections.simps) auto
  next
    case True
    then have up: "[i .. min (lookAhead s) (ms - 1)] = i # [i + 1 .. min (lookAhead s) (ms - 1)]"
      by (subst upto_rec1) auto
    show ?thesis
    proof (cases "eligible s (min (cs + i) ms)")
      case yes: True
      with True up show ?thesis
        by (subst scanSections.simps)
           (simp add: eligible_def indexOf_neg_iff sectionCall_def Let_def)
    next
      case no: False
      then have "\<not> (\<not> resident s (min (cs + i) ms) \<and> indexOf (requestQueue s) (min (cs + i) ms) < 0)"
        by (simp add: eligible_def indexOf_neg_iff)
      with "1.IH" [OF True refl] have
        "scanSections s pt cs ms (i + 1) =
           (case find (eligible s) (map (\<lambda>j. min (cs + j) ms) [i + 1 .. min (lookAhead s) (ms - 1)]) of
              None \<Rightarrow> s
            | Some k \<Rightarrow> asyncRequest s (callUrl (sectionCall s pt k)) k)"
        by simp
      with True up no show ?thesis
        by (subst scanSections.simps) (auto simp: eligible_def indexOf_neg_iff Let_def)
    qed
  qed
qed

lemma firstCandidate_eligible: "firstCandidate s pt = Some k \<Longrightarrow> eligible s k"
  unfolding firstCandidate_def by (auto simp: find_Some_iff)

lemma streamToBuffer_cases:
  "streamToBuffer s pt =
     (if length (requestQueue s) < 2
      then (case firstCandidate s pt of
              None \<Rightarrow> s
            | Some k \<Rightarrow> asyncRequest s (callUrl (sectionCall s pt k)) k)
      else s)"
proof -
  have "(int (length (requestQueue s)) < 2) = (length (requestQueue s) < 2)"
    by auto
  then show ?thesis
    by (simp add: streamToBuffer_def scanSections_find firstCandidate_def candidateSections_def
        Let_def)
qed

lemma streamToBuffer_calls:
  "ajaxCalls (streamToBuffer s pt) = ajaxCalls s @ issuedCalls s pt"
  by (auto simp: streamToBuffer_cases issuedCalls_def asyncRequest_calls sectionCall_def
      split: option.splits dest: firstCandidate_eligible [unfolded eligible_def])

lemma streamToBuffer_queue:
  "requestQueue (streamToBuffer s pt) = requestQueue s @ map callSect (issuedCalls s pt)"
  by (auto simp: streamToBuffer_cases issuedCalls_def asyncRequest_queue sectionCall_def
      split: option.splits dest: firstCandidate_eligible [unfolded eligible_def])

lemma issuedCalls_length: "length (issuedCalls s pt) \<le> 1"
  by (simp add: issuedCalls_def split: option.splits)

lemma issuedCalls_backpressure: "2 \<le> length (requestQueue s) \<Longrightarrow> issuedCalls s pt = []"
  by (simp add: issuedCalls_def)

lemma issuedCalls_eligible:
  assumes "c \<in> set (issuedCalls s pt)"
  shows "\<not> resident s (callSect c) \<and> callSect c \<notin> set (requestQueue s)"
proof (cases "firstCandidate s pt")
  case None
  with assms show ?thesis
    unfolding issuedCalls_def by (cases "length (requestQueue s) < 2") simp_all
next
  case (Some k)
  with assms have "c = sectionCall s pt k"
    unfolding issuedCalls_def by (cases "length (requestQueue s) < 2") simp_all
  with firstCandidate_eligible [OF Some] show ?thesis by (simp add: eligible_def sectionCall_def)
qed

section \<open>What every run keeps\<close>

text \<open>
  The runs allow every handler at every moment, with any arguments: more than the page
  and the browser can do, so what holds of all these runs holds of the real ones.
\<close>

lemma parsedCallback_queue_length:
  "length (requestQueue (parsedCallback s sect json)) \<le> length (requestQueue s)"
  by (simp add: parsedCallback_def Let_def length_splice1)

lemma parseAsync_queue_length:
  "length (requestQueue (parseAsync e s data sect)) \<le> length (requestQueue s)"
  by (simp add: parseAsync_def parsedCallback_queue_length split: option.splits)

lemma ajaxSuccess_queue_length:
  "length (requestQueue (ajaxSuccess e s privateID sect response)) \<le> length (requestQueue s)"
  by (simp add: ajaxSuccess_def parseAsync_queue_length)

lemma workerMessage_queue_length:
  "length (requestQueue (workerMessage e s n)) \<le> length (requestQueue s)"
proof (cases "n < length (workers s)")
  case False
  then show ?thesis by (simp add: workerMessage_def)
next
  case True
  obtain sect data where w: "workers s ! n = (sect, data)" by (cases "workers s ! n")
  let ?s1 = "s\<lparr>workers := take n (workers s) @ drop (Suc n) (workers s)\<rparr>"
  have "length (requestQueue (parsedCallback ?s1 sect json)) \<le> length (requestQueue s)" for json
    using parsedCallback_queue_length [of ?s1 sect json] by simp
  with True w show ?thesis by (simp add: workerMessage_def Let_def split: option.splits)
qed

lemma streamToBuffer_queue_length:
  assumes "length (requestQueue s) \<le> 2"
  shows "length (requestQueue (streamToBuffer s pt)) \<le> 2"
proof (cases "length (requestQueue s) < 2")
  case True
  with issuedCalls_length [of s pt] show ?thesis by (simp add: streamToBuffer_queue)
next
  case False
  with assms show ?thesis by (simp add: streamToBuffer_queue issuedCalls_def)
qed

lemma getViewAtTimeNoCache_queue:
  "requestQueue (snd (getViewAtTimeNoCache e s t v u)) = requestQueue s"
  by (simp add: getViewAtTimeNoCache_def Let_def split: sum.splits)

lemma getViewAtTime_queue:
  "requestQueue (snd (TSRPC_getViewAtTime e s t v)) = requestQueue s"
  by (simp add: TSRPC_getViewAtTime_def getViewAtTimeNoCache_queue split: option.splits)

lemma getBackgroundView_queue:
  "requestQueue (snd (TSRPC_getBackgroundView e s v)) = requestQueue s"
proof -
  obtain r s1 where g: "getViewAtTimeNoCache e s 0 v (urlBackgroundVolumeData s) = (r, s1)"
    by (cases "getViewAtTimeNoCache e s 0 v (urlBackgroundVolumeData s)")
  with getViewAtTimeNoCache_queue [of e s 0 v "urlBackgroundVolumeData s"]
  have "requestQueue s1 = requestQueue s" by simp
  with g show ?thesis
    by (simp add: TSRPC_getBackgroundView_def Let_def split: option.splits sum.splits)
qed

lemma initStreaming_queue:
  "TSRPC_initStreaming s u b sz rate = Some s' \<Longrightarrow> requestQueue s' = requestQueue s"
  by (auto simp: TSRPC_initStreaming_def TSRPC_initNonStreaming_def setupBuffersSize_def
      setInterval_def Let_def split: option.splits prod.splits)

lemma step_queue_length:
  assumes "step e s ev = Some s'" and "length (requestQueue s) \<le> 2"
  shows "length (requestQueue s') \<le> 2"
proof (cases ev)
  case (InitNonStreaming u b r sz)
  with assms show ?thesis
    by (auto simp: TSRPC_initNonStreaming_def split: prod.splits)
next
  case (InitStreaming u b sz rate)
  with assms initStreaming_queue [of s u b sz rate s'] show ?thesis by simp
next
  case StartBuffering
  with assms show ?thesis
    by (auto simp: TSRPC_startBuffering_def setInterval_def Let_def)
next
  case StopBuffering
  with assms show ?thesis
    by (auto simp: TSRPC_stopBuffering_def clearInterval_def split: option.splits)
next
  case (Tick pt)
  with assms streamToBuffer_queue_length [of s pt] show ?thesis by auto
next
  case (Sweep pt)
  with assms show ?thesis by (auto simp: freeBuffer_def Let_def)
next
  case (Success privateID sect response)
  with assms ajaxSuccess_queue_length [of e s privateID sect response] show ?thesis by auto
next
  case Failure
  with assms show ?thesis by (auto simp: ajaxError_def)
next
  case (WorkerDone n)
  with assms workerMessage_queue_length [of e s n] show ?thesis by auto
next
  case (GetViewAtTime t v)
  with assms getViewAtTime_queue [of e s t v] show ?thesis by auto
next
  case (GetBackgroundView v)
  with assms getBackgroundView_queue [of e s v] show ?thesis by auto
next
  case (GetVoxelRegion v)
  with assms show ?thesis by (auto simp: TSRPC_getVoxelRegion_def)
qed

lemma run_queue_length:
  assumes "run e s evs = Some s'" and "length (requestQueue s) \<le> 2"
  shows "length (requestQueue s') \<le> 2"
  using assms
proof (induction evs arbitrary: s)
  case Nil
  then show ?case by simp
next
  case (Cons ev evs)
  from Cons.prems(1) obtain s1 where st: "step e s ev = Some s1" and r: "run e s1 evs = Some s'"
    by (auto split: option.splits)
  from step_queue_length [OF st Cons.prems(2)] have "length (requestQueue s1) \<le> 2" .
  from Cons.IH [OF r this] show ?case .
qed

lemma setupBuffersSize_sized:
  assumes "setupBuffersSize s sz = Some s'" and "sized s"
  shows "sized s'"
proof -
  obtain e0 e1 e2 e3 where sz: "sz = (e0, e1, e2, e3)" by (cases sz)
  define tp where "tp = max (max e0 e1) e2 * max (max e0 e1) e2"
  from assms(1) sz obtain bs l2 where g1: "growBufferSize tp (bufferSize s) = Some bs"
    and g2: "growBufferL2Size tp bs (bufferL2Size s) = Some l2"
    and s': "s' = s\<lparr>bufferSize := bs, bufferL2Size := l2 / 2\<rparr>"
    by (auto simp: setupBuffersSize_def Let_def tp_def split: option.splits)
  from growBufferSize_ge [OF g1] assms(2) have "1 \<le> bs" by (simp add: sized_def)
  moreover from assms(2) have "0 < bufferL2Size s" by (simp add: sized_def)
  from growBufferL2Size_pos [OF g2 this] have "0 < l2" .
  ultimately show ?thesis by (simp add: s' sized_def)
qed

lemma step_sized:
  assumes "step e s ev = Some s'" and "sized s"
  shows "sized s'"
proof (cases ev)
  case (InitStreaming u b sz rate)
  with assms(1) obtain s2 where
    s2: "setupBuffersSize (TSRPC_initNonStreaming s u b None sz) sz = Some s2"
    and s': "s' = fst (setInterval s2 FreeBufferTask (rate * 20))"
    by (auto simp: TSRPC_initStreaming_def Let_def split: option.splits)
  have "sized (TSRPC_initNonStreaming s u b None sz)"
    using assms(2) by (simp add: sized_def TSRPC_initNonStreaming_def split: prod.splits)
  from setupBuffersSize_sized [OF s2 this] show ?thesis
    by (simp add: s' sized_def setInterval_def)
next
  case (InitNonStreaming u b r sz)
  with assms show ?thesis
    by (auto simp: sized_def TSRPC_initNonStreaming_def split: prod.splits)
next
  case StartBuffering
  with assms show ?thesis
    by (auto simp: sized_def TSRPC_startBuffering_def setInterval_def Let_def)
next
  case StopBuffering
  with assms show ?thesis
    by (auto simp: sized_def TSRPC_stopBuffering_def clearInterval_def split: option.splits)
next
  case (Tick pt)
  have "bufferSize (streamToBuffer s pt) = bufferSize s"
    "bufferL2Size (streamToBuffer s pt) = bufferL2Size s"
    by (simp_all add: streamToBuffer_cases asyncRequest_def Let_def split: option.splits)
  with Tick assms show ?thesis by (auto simp: sized_def)
next
  case (Sweep pt)
  with assms show ?thesis by (auto simp: sized_def freeBuffer_def Let_def)
next
  case (Success privateID sect response)
  with assms show ?thesis
    by (auto simp: sized_def ajaxSuccess_def parseAsync_def parsedCallback_def Let_def
        split: option.splits)
next
  case Failure
  with assms show ?thesis by (auto simp: sized_def ajaxError_def)
next
  case (WorkerDone n)
  with assms show ?thesis
    by (auto simp: sized_def workerMessage_def parsedCallback_def Let_def
        split: option.splits prod.splits)
next
  case (GetViewAtTime t v)
  with assms show ?thesis
    by (auto simp: sized_def TSRPC_getViewAtTime_def getViewAtTimeNoCache_def Let_def
        split: option.splits sum.splits)
next
  case (GetBackgroundView v)
  with assms show ?thesis
    by (auto simp: sized_def TSRPC_getBackgroundView_def getViewAtTimeNoCache_def Let_def
        split: option.splits sum.splits)
next
  case (GetVoxelRegion v)
  with assms show ?thesis by (auto simp: sized_def TSRPC_getVoxelRegion_def)
qed

lemma run_sized:
  assumes "run e s evs = Some s'" and "sized s"
  shows "sized s'"
  using assms
proof (induction evs arbitrary: s)
  case Nil
  then show ?case by simp
next
  case (Cons ev evs)
  from Cons.prems(1) obtain s1 where st: "step e s ev = Some s1" and r: "run e s1 evs = Some s'"
    by (auto split: option.splits)
  from Cons.IH [OF r step_sized [OF st Cons.prems(2)]] show ?case .
qed

lemma reachable_sized: "run e tsRPC evs = Some s \<Longrightarrow> 1 \<le> bufferSize s \<and> 0 < bufferL2Size s"
  using run_sized [of e tsRPC evs s] by (simp add: sized_def tsRPC_def)

text \<open>
  Claim C2. In every state a run can reach, the in-flight set \<open>requestQueue\<close> holds at most two
  entries; a tick issues at most one request, issues it only when the set has fewer than
  two entries, and leaves at most two entries.
\<close>

theorem requestQueue_at_most_two:
  assumes "run e tsRPC evs = Some s"
  shows "length (requestQueue s) \<le> 2
         \<and> length (ajaxCalls (streamToBuffer s pt)) \<le> length (ajaxCalls s) + 1
         \<and> (ajaxCalls (streamToBuffer s pt) \<noteq> ajaxCalls s \<longrightarrow> length (requestQueue s) < 2)
         \<and> length (requestQueue (streamToBuffer s pt)) \<le> 2"
proof -
  have q0: "length (requestQueue tsRPC) \<le> 2" by (simp add: tsRPC_def)
  from run_queue_length [OF assms q0] have q: "length (requestQueue s) \<le> 2" .
  have one: "length (ajaxCalls (streamToBuffer s pt)) \<le> length (ajaxCalls s) + 1"
    using issuedCalls_length [of s pt] by (simp add: streamToBuffer_calls)
  have cap: "length (requestQueue s) < 2" if "ajaxCalls (streamToBuffer s pt) \<noteq> ajaxCalls s"
  proof (rule ccontr)
    assume "\<not> length (requestQueue s) < 2"
    then have "issuedCalls s pt = []" by (simp add: issuedCalls_def)
    with that show False by (simp add: streamToBuffer_calls)
  qed
  from q one cap streamToBuffer_queue_length [OF q, of pt] show ?thesis by blast
qed

text \<open>
  After one tick section 0 is in flight and the next tick requests section 1; with both
  in flight a third tick changes nothing.
\<close>

theorem requestQueue_at_most_two_witness:
  "run demoEnv tsRPC demoTrace1 = Some demoFetching
   \<and> ajaxCalls (streamToBuffer demoFetching demoPoint) \<noteq> ajaxCalls demoFetching
   \<and> length (requestQueue demoFetching) < 2
   \<and> run demoEnv tsRPC demoTrace2 = Some demoTwoInFlight
   \<and> requestQueue demoTwoInFlight = [0, 1]
   \<and> length (requestQueue (streamToBuffer demoTwoInFlight demoPoint)) \<le> 2"
proof -
  have "ajaxCalls demoTwoInFlight \<noteq> ajaxCalls demoFetching"
    by (simp add: demoTwoInFlight_eq demoFetching_eq)
  then have c: "ajaxCalls (streamToBuffer demoFetching demoPoint) \<noteq> ajaxCalls demoFetching"
    unfolding demoTwoInFlight_def .
  from requestQueue_at_most_two [OF run_demoTrace1, of demoPoint] c
  have a: "length (requestQueue demoFetching) < 2" by blast
  from requestQueue_at_most_two [OF run_demoTrace2, of demoPoint]
  have b: "length (requestQueue (streamToBuffer demoTwoInFlight demoPoint)) \<le> 2" by blast
  have d: "requestQueue demoTwoInFlight = [0, 1]" by (simp add: demoTwoInFlight_eq)
  from run_demoTrace1 run_demoTrace2 a b c d show ?thesis by blast
qed

text \<open>
  Claim C3. What a tick hands to \<open>doAjaxCall\<close> is what the rule of the specification issues:
  at most the request for the first scanned candidate that is neither resident nor in
  flight. So a section that is resident, or in flight, when the tick starts is never
  requested by it. (The divisions of the tick stand for those of the source when
  \<open>bufferSize\<close> is not zero, which every run keeps.)
\<close>

theorem streamToBuffer_no_duplicate_fetch:
  assumes "0 < bufferSize s"
  shows "ajaxCalls (streamToBuffer s pt) = ajaxCalls s @ issuedCalls s pt
         \<and> (resident s k \<or> k \<in> set (requestQueue s)
              \<longrightarrow> k \<notin> callSect ` set (issuedCalls s pt))"
proof -
  have "k \<notin> callSect ` set (issuedCalls s pt)" if "resident s k \<or> k \<in> set (requestQueue s)"
    using that issuedCalls_eligible [of _ s pt] by auto
  then show ?thesis by (simp add: streamToBuffer_calls)
qed

text \<open>
  Five time points per segment, 20 time points, playback in section 2, sections 2 and 3
  resident: the tick requests section 4 and nothing else.
\<close>

lemma issuedCalls_demoAhead:
  "issuedCalls demoAhead demoPoint10 =
     [\<lparr>callUrl = ''/vol?from_idx=20;to_idx=20;x_plane=1;y_plane=2;z_plane=3'',
       callSect = 4, callPrivateID = 1\<rparr>]"
  by (simp add: issuedCalls_def firstCandidate_def candidateSections_def eligible_def
      demoAhead_def demoStarted_eq demoState_def tsRPC_def demoPoint10_def ceilDiv_def
      floorDiv_def resident_def demoBuffer_def sectionCall_def upto.simps url_simps)

theorem streamToBuffer_no_duplicate_fetch_witness:
  "0 < bufferSize demoAhead
   \<and> resident demoAhead 2
   \<and> ajaxCalls (streamToBuffer demoAhead demoPoint10)
       = [\<lparr>callUrl = ''/vol?from_idx=20;to_idx=20;x_plane=1;y_plane=2;z_plane=3'',
           callSect = 4, callPrivateID = 1\<rparr>]
   \<and> 2 \<notin> callSect ` set (issuedCalls demoAhead demoPoint10)"
proof -
  have h: "0 < bufferSize demoAhead"
    by (simp add: demoAhead_def demoStarted_eq demoState_def tsRPC_def)
  have r: "resident demoAhead 2"
    by (simp add: demoAhead_def resident_def demoBuffer_def)
  have a: "ajaxCalls demoAhead = []"
    by (simp add: demoAhead_def demoStarted_eq demoState_def tsRPC_def)
  from streamToBuffer_no_duplicate_fetch [OF h, of demoPoint10 2] h r a
  show ?thesis by (simp add: issuedCalls_demoAhead)
qed

section \<open>Views\<close>

lemma getViewAtTime_miss:
  assumes "\<not> resident s (floorDiv t (bufferSize s))"
  shows "TSRPC_getViewAtTime e s t v = getViewAtTimeNoCache e s t v (urlVolumeData s)"
  using assms by (simp add: TSRPC_getViewAtTime_def resident_def split: option.splits)

text \<open>
  The array literal of \<open>_getViewAtTimeNoCache\<close> on an answer made of three arrays: the first
  element of each, or \<open>undefined\<close> for an empty one. Anything that has no element 0, 1 or 2
  to read from throws.
\<close>

lemma viewAt_planes:
  "viewAt (JArr (JArr xs # JArr ys # JArr zs # rest)) 0
     = Inr (case xs of [] \<Rightarrow> JUndefined | x # _ \<Rightarrow> x,
            case ys of [] \<Rightarrow> JUndefined | y # _ \<Rightarrow> y,
            case zs of [] \<Rightarrow> JUndefined | z # _ \<Rightarrow> z)"
  by (simp add: viewAt_def jsGet_def split: list.splits)

lemma viewAt_not_indexable:
  "viewAt JNull 0 = Inl TypeError"
  "viewAt JUndefined 0 = Inl TypeError"
  "viewAt (JArr []) 0 = Inl TypeError"
  "viewAt (JArr [JArr xs]) 0 = Inl TypeError"
  "viewAt (JArr [JArr xs, JArr ys]) 0 = Inl TypeError"
  by (simp_all add: viewAt_def jsGet_def)

text \<open>
  Claim C4. When the segment of time point \<open>t\<close> is not resident, \<open>TSRPC_getViewAtTime\<close> makes
  one blocking read, of the URL for the range from \<open>t\<close> to \<open>min (t + 1) timeLength\<close> at the
  given voxel, and leaves \<open>bufferL2\<close> as it was; it starts no asynchronous request. What it
  returns is decoded from the answer to that read: a failed read is returned as the
  failure; an answer made of three arrays gives the element 0 of each of them, in this
  order (\<open>undefined\<close> for an empty array); an answer the indices 0, 1, 2 cannot be read from
  gives a TypeError; in every case the value is \<open>[buffer[0][0], buffer[1][0], buffer[2][0]]\<close>.
\<close>

theorem getViewAtTime_fallback:
  assumes "0 < bufferSize s"
    and "\<not> resident s (floorDiv t (bufferSize s))"
  shows "fst (TSRPC_getViewAtTime e s t v)
           = (case readJSON e (buildRequestUrl (urlVolumeData s) t (min (t + 1) (timeLength s)) v) of
                Inl err \<Rightarrow> Inl err
              | Inr buffer \<Rightarrow> viewAt buffer 0)
         \<and> (readJSON e (buildRequestUrl (urlVolumeData s) t (min (t + 1) (timeLength s)) v)
               = Inl err
             \<longrightarrow> fst (TSRPC_getViewAtTime e s t v) = Inl err)
         \<and> (readJSON e (buildRequestUrl (urlVolumeData s) t (min (t + 1) (timeLength s)) v)
               = Inr (JArr (JArr xs # JArr ys # JArr zs # rest))
             \<longrightarrow> fst (TSRPC_getViewAtTime e s t v)
                   = Inr (case xs of [] \<Rightarrow> JUndefined | x # _ \<Rightarrow> x,
                          case ys of [] \<Rightarrow> JUndefined | y # _ \<Rightarrow> y,
                          case zs of [] \<Rightarrow> JUndefined | z # _ \<Rightarrow> z))
         \<and> (readJSON e (buildRequestUrl (urlVolumeData s) t (min (t + 1) (timeLength s)) v)
               \<in> {Inr JNull, Inr JUndefined, Inr (JArr []), Inr (JArr [JArr xs]),
                   Inr (JArr [JArr xs, JArr ys])}
             \<longrightarrow> fst (TSRPC_getViewAtTime e s t v) = Inl TypeError)
         \<and> syncReads (snd (TSRPC_getViewAtTime e s t v))
           = syncReads s @ [buildRequestUrl (urlVolumeData s) t (min (t + 1) (timeLength s)) v]
         \<and> bufferL2 (snd (TSRPC_getViewAtTime e s t v)) = bufferL2 s
         \<and> ajaxCalls (snd (TSRPC_getViewAtTime e s t v)) = ajaxCalls s"
proof -
  define url where "url = buildRequestUrl (urlVolumeData s) t (min (t + 1) (timeLength s)) v"
  have miss: "TSRPC_getViewAtTime e s t v =
                (case readJSON e url of
                   Inl err \<Rightarrow> (Inl err, s\<lparr>syncReads := syncReads s @ [url]\<rparr>)
                 | Inr buffer \<Rightarrow> (viewAt buffer 0, s\<lparr>syncReads := syncReads s @ [url]\<rparr>))"
    using assms(2)
    by (simp add: getViewAtTime_miss getViewAtTimeNoCache_def Let_def add.commute url_def
        split: sum.splits)
  have r: "fst (TSRPC_getViewAtTime e s t v)
             = (case readJSON e url of Inl err \<Rightarrow> Inl err | Inr buffer \<Rightarrow> viewAt buffer 0)"
    by (simp add: miss split: sum.splits)
  have st: "snd (TSRPC_getViewAtTime e s t v) = s\<lparr>syncReads := syncReads s @ [url]\<rparr>"
    by (simp add: miss split: sum.splits)
  have failed: "fst (TSRPC_getViewAtTime e s t v) = Inl err" if "readJSON e url = Inl err"
    using that by (simp add: r)
  have planes: "fst (TSRPC_getViewAtTime e s t v)
                  = Inr (case xs of [] \<Rightarrow> JUndefined | x # _ \<Rightarrow> x,
                         case ys of [] \<Rightarrow> JUndefined | y # _ \<Rightarrow> y,
                         case zs of [] \<Rightarrow> JUndefined | z # _ \<Rightarrow> z)"
    if "readJSON e url = Inr (JArr (JArr xs # JArr ys # JArr zs # rest))"
    using that by (simp add: r viewAt_planes)
  have thrown: "fst (TSRPC_getViewAtTime e s t v) = Inl TypeError"
    if "readJSON e url \<in> {Inr JNull, Inr JUndefined, Inr (JArr []), Inr (JArr [JArr xs]),
                           Inr (JArr [JArr xs, JArr ys])}"
    using that by (auto simp: r viewAt_not_indexable)
  from r st failed planes thrown show ?thesis unfolding url_def by simp
qed

text \<open>
  Five time points per segment, 20 time points, an empty cache: the view at time point 7
  for voxel (1, 2, 3) is read from \<open>from_idx=7;to_idx=8\<close>, it is made of the first elements
  1, 3 and 5 of the three arrays of the answer, and the cache stays empty. When the read
  fails the failure is what the caller gets, and an answer \<open>null\<close> throws.
\<close>

theorem getViewAtTime_fallback_witness:
  "0 < bufferSize demoState
   \<and> \<not> resident demoState (floorDiv 7 (bufferSize demoState))
   \<and> readJSON demoEnv ''/vol?from_idx=7;to_idx=8;x_plane=1;y_plane=2;z_plane=3''
       = Inr (JArr [JArr [JNum 1, JNum 2], JArr [JNum 3, JNum 4], JArr [JNum 5, JNum 6]])
   \<and> fst (TSRPC_getViewAtTime demoEnv demoState 7 (1, 2, 3)) = Inr (JNum 1, JNum 3, JNum 5)
   \<and> syncReads (snd (TSRPC_getViewAtTime demoEnv demoState 7 (1, 2, 3)))
       = [''/vol?from_idx=7;to_idx=8;x_plane=1;y_plane=2;z_plane=3'']
   \<and> bufferL2 (snd (TSRPC_getViewAtTime demoEnv demoState 7 (1, 2, 3))) = []
   \<and> readJSON failingEnv ''/vol?from_idx=7;to_idx=8;x_plane=1;y_plane=2;z_plane=3''
       = Inl TransportFailure
   \<and> fst (TSRPC_getViewAtTime failingEnv demoState 7 (1, 2, 3)) = Inl TransportFailure
   \<and> readJSON nullEnv ''/vol?from_idx=7;to_idx=8;x_plane=1;y_plane=2;z_plane=3'' = Inr JNull
   \<and> fst (TSRPC_getViewAtTime nullEnv demoState 7 (1, 2, 3)) = Inl TypeError"
proof -
  have h1: "0 < bufferSize demoState" by (simp add: demoState_def tsRPC_def)
  have h2: "\<not> resident demoState (floorDiv 7 (bufferSize demoState))"
    by (simp add: demoState_def tsRPC_def resident_def)
  have u: "buildRequestUrl (urlVolumeData demoState) 7 (min (7 + 1) (timeLength demoState)) (1, 2, 3)
             = ''/vol?from_idx=7;to_idx=8;x_plane=1;y_plane=2;z_plane=3''"
    by (simp add: demoState_def tsRPC_def url_simps)
  have a: "readJSON demoEnv ''/vol?from_idx=7;to_idx=8;x_plane=1;y_plane=2;z_plane=3''
             = Inr (JArr [JArr [JNum 1, JNum 2], JArr [JNum 3, JNum 4], JArr [JNum 5, JNum 6]])"
    by (simp add: demoEnv_def demoBuffer_def)
  have b: "readJSON failingEnv ''/vol?from_idx=7;to_idx=8;x_plane=1;y_plane=2;z_plane=3''
             = Inl TransportFailure"
    by (simp add: failingEnv_def)
  have c: "readJSON nullEnv ''/vol?from_idx=7;to_idx=8;x_plane=1;y_plane=2;z_plane=3'' = Inr JNull"
    by (simp add: nullEnv_def)
  have e1: "syncReads demoState = []" and e2: "bufferL2 demoState = []"
    by (simp_all add: demoState_def tsRPC_def)
  note ok = getViewAtTime_fallback
              [OF h1 h2, of demoEnv "(1, 2, 3)" _ "[JNum 1, JNum 2]" "[JNum 3, JNum 4]"
                 "[JNum 5, JNum 6]" "[]", unfolded u]
  from ok [THEN conjunct2, THEN conjunct2, THEN conjunct1, rule_format, OF a]
  have r1: "fst (TSRPC_getViewAtTime demoEnv demoState 7 (1, 2, 3)) = Inr (JNum 1, JNum 3, JNum 5)"
    by simp
  from ok [THEN conjunct2, THEN conjunct2, THEN conjunct2, THEN conjunct2, THEN conjunct1] e1
  have r2: "syncReads (snd (TSRPC_getViewAtTime demoEnv demoState 7 (1, 2, 3)))
              = [''/vol?from_idx=7;to_idx=8;x_plane=1;y_plane=2;z_plane=3'']"
    by simp
  from ok [THEN conjunct2, THEN conjunct2, THEN conjunct2, THEN conjunct2, THEN conjunct2,
           THEN conjunct1] e2
  have r3: "bufferL2 (snd (TSRPC_getViewAtTime demoEnv demoState 7 (1, 2, 3))) = []"
    by simp
  from getViewAtTime_fallback [OF h1 h2, of failingEnv "(1, 2, 3)" TransportFailure, unfolded u] b
  have r4: "fst (TSRPC_getViewAtTime failingEnv demoState 7 (1, 2, 3)) = Inl TransportFailure"
    by blast
  from getViewAtTime_fallback
         [OF h1 h2, of nullEnv "(1, 2, 3)", unfolded u, THEN conjunct2, THEN conjunct2,
          THEN conjunct2, THEN conjunct1] c
  have r5: "fst (TSRPC_getViewAtTime nullEnv demoState 7 (1, 2, 3)) = Inl TypeError"
    by simp
  from h1 h2 a b c r1 r2 r3 r4 r5 show ?thesis by blast
qed

text \<open>
  Claim C10. \<open>TSRPC_startBuffering\<close> leaves \<open>backgroundL2\<close> unchanged, so a background view
  cached before the call is returned after it, for the same voxel, without any read.
\<close>

theorem startBuffering_keeps_background:
  "backgroundL2 (TSRPC_startBuffering s) = backgroundL2 s
   \<and> (map_of (backgroundL2 s) (voxelKey v) = Some w
        \<longrightarrow> TSRPC_getBackgroundView e (TSRPC_startBuffering s) v = (Inr w, TSRPC_startBuffering s))"
proof -
  have bg: "backgroundL2 (TSRPC_startBuffering s) = backgroundL2 s"
    by (simp add: TSRPC_startBuffering_def setInterval_def)
  then show ?thesis by (simp add: TSRPC_getBackgroundView_def)
qed

text \<open>
  The background of voxel (1, 2, 3) is read once; buffering starts (the batch id moves on);
  the same voxel is served from the cache.
\<close>

theorem startBuffering_keeps_background_witness:
  "backgroundL2 (TSRPC_startBuffering demoBackground) = [(''1,2,3'', (JNum 1, JNum 3, JNum 5))]
   \<and> map_of (backgroundL2 demoBackground) (voxelKey (1, 2, 3)) = Some (JNum 1, JNum 3, JNum 5)
   \<and> fst (TSRPC_getBackgroundView demoEnv (TSRPC_startBuffering demoBackground) (1, 2, 3))
        = Inr (JNum 1, JNum 3, JNum 5)
   \<and> syncReads (snd (TSRPC_getBackgroundView demoEnv (TSRPC_startBuffering demoBackground) (1, 2, 3)))
        = syncReads demoBackground
   \<and> batchID (TSRPC_startBuffering demoBackground) = batchID demoBackground + 1"
proof -
  have h: "map_of (backgroundL2 demoBackground) (voxelKey (1, 2, 3)) = Some (JNum 1, JNum 3, JNum 5)"
    by (simp add: demoBackground_eq voxelKey_def num_simps)
  have b: "batchID (TSRPC_startBuffering demoBackground) = batchID demoBackground + 1"
    by (simp add: demoBackground_eq demoState_def tsRPC_def TSRPC_startBuffering_def noTimer_def setInterval_def)
  have q: "syncReads (TSRPC_startBuffering demoBackground) = syncReads demoBackground"
    by (simp add: TSRPC_startBuffering_def setInterval_def)
  from startBuffering_keeps_background [of demoBackground "(1, 2, 3)" "(JNum 1, JNum 3, JNum 5)" demoEnv] h b q
  show ?thesis by (simp add: demoBackground_eq)
qed

section \<open>Eviction\<close>

text \<open>
  The \<open>for ... in\<close> loop deletes exactly the keys that satisfy the condition, and when the
  time length is positive the keys that stay lie between the two remainders.
\<close>

lemma fold_delete_filter:
  "fold (\<lambda>idx b. if P idx then AList.delete idx b else b) ks b
     = filter (\<lambda>kv. \<not> (fst kv \<in> set ks \<and> P (fst kv))) b"
proof (induction ks arbitrary: b)
  case Nil
  then show ?case by simp
next
  case (Cons k ks)
  have first: "(if P k then AList.delete k b else b) = filter (\<lambda>kv. \<not> (fst kv = k \<and> P k)) b"
    by (auto simp: AList.delete_eq case_prod_beta intro: filter_cong)
  have "fold (\<lambda>idx b. if P idx then AList.delete idx b else b) (k # ks) b
          = filter (\<lambda>kv. \<not> (fst kv \<in> set ks \<and> P (fst kv)))
              (filter (\<lambda>kv. \<not> (fst kv = k \<and> P k)) b)"
    by (simp only: fold_simps Cons.IH first)
  also have "\<dots> = filter (\<lambda>kv. \<not> (fst kv \<in> set (k # ks) \<and> P (fst kv))) b"
    by (auto intro: filter_cong)
  finally show ?case .
qed

lemma sweep_is_filter:
  "fold (\<lambda>idx b. if P idx then AList.delete idx b else b) (objectKeys obj) obj
     = filter (\<lambda>kv. \<not> P (fst kv)) obj"
  unfolding fold_delete_filter by (rule filter_cong) (auto simp: objectKeys_def)

lemma freeBuffer_cache:
  "bufferL2 (freeBuffer s pt) =
     (if bufferL2Size s < of_nat (length (objectKeys (bufferL2 s)))
      then filter (\<lambda>kv. \<not> evicts s (floorDiv (currentTimePoint pt) (bufferSize s)) (fst kv)) (bufferL2 s)
      else bufferL2 s)"
  by (simp add: freeBuffer_def Let_def sweep_is_filter)

lemma truncRat_mono: "x \<le> y \<Longrightarrow> truncRat x \<le> truncRat y"
proof -
  assume xy: "x \<le> y"
  show ?thesis
  proof (cases "0 \<le> x")
    case True
    with xy have "0 \<le> y" by simp
    with True xy show ?thesis by (simp add: truncRat_def floor_mono)
  next
    case False
    show ?thesis
    proof (cases "0 \<le> y")
      case True
      from False have "\<lceil>x\<rceil> \<le> 0" by (simp add: ceiling_le_iff)
      moreover from True have "0 \<le> \<lfloor>y\<rfloor>" by simp
      ultimately have "\<lceil>x\<rceil> \<le> \<lfloor>y\<rfloor>" by linarith
      with False True show ?thesis by (simp add: truncRat_def)
    next
      case yneg: False
      with False xy show ?thesis by (simp add: truncRat_def ceiling_mono)
    qed
  qed
qed

lemma interval_count:
  fixes lo hi L :: rat and xs :: "int list"
  assumes d: "distinct xs" and b: "\<forall>x \<in> set xs. lo \<le> of_int x \<and> of_int x \<le> hi"
    and w: "hi - lo \<le> L" and L: "0 \<le> L"
  shows "of_nat (length xs) \<le> L + 1"
proof (cases "xs = []")
  case True
  with L show ?thesis by simp
next
  case False
  then obtain x where x: "x \<in> set xs" by (cases xs) auto
  with b have "lo \<le> of_int x" "of_int x \<le> hi" by auto
  then have cx: "\<lceil>lo\<rceil> \<le> x" "x \<le> \<lfloor>hi\<rfloor>" by (simp_all add: ceiling_le_iff le_floor_iff)
  have sub: "set xs \<subseteq> {\<lceil>lo\<rceil> .. \<lfloor>hi\<rfloor>}"
    using b by (auto simp: ceiling_le_iff le_floor_iff)
  have "length xs = card (set xs)" using d by (simp add: distinct_card)
  also have "\<dots> \<le> card {\<lceil>lo\<rceil> .. \<lfloor>hi\<rfloor>}" by (rule card_mono [OF _ sub]) simp
  also have "\<dots> = nat (\<lfloor>hi\<rfloor> - \<lceil>lo\<rceil> + 1)" by simp
  finally have "int (length xs) \<le> \<lfloor>hi\<rfloor> - \<lceil>lo\<rceil> + 1" using cx by simp
  then have "(of_int (int (length xs)) :: rat) \<le> of_int (\<lfloor>hi\<rfloor> - \<lceil>lo\<rceil> + 1)"
    by (simp only: of_int_le_iff)
  also have "\<dots> = of_int \<lfloor>hi\<rfloor> - of_int \<lceil>lo\<rceil> + 1" by simp
  also have "\<dots> \<le> hi - lo + 1"
    using of_int_floor_le [of hi] le_of_int_ceiling [of lo] by linarith
  also have "\<dots> \<le> L + 1" using w by simp
  finally show ?thesis by simp
qed

lemma window_width:
  fixes a b :: rat and m :: int
  assumes m: "0 < m" and ab: "a \<le> b"
  shows "(b - of_int m * of_int (truncRat (b / of_int m)))
           - (a - of_int m * of_int (truncRat (a / of_int m))) \<le> b - a"
proof -
  from m have mr: "(0::rat) < of_int m" by simp
  with ab have "a / of_int m \<le> b / of_int m" by (simp add: divide_right_mono)
  then have "truncRat (a / of_int m) \<le> truncRat (b / of_int m)" by (rule truncRat_mono)
  then have "(of_int (truncRat (a / of_int m)) :: rat) \<le> of_int (truncRat (b / of_int m))"
    by simp
  with mr have "(of_int m :: rat) * of_int (truncRat (a / of_int m))
                  \<le> of_int m * of_int (truncRat (b / of_int m))"
    by (simp add: mult_left_mono)
  then show ?thesis by linarith
qed

lemma remainder_below:
  fixes b :: rat and m :: int
  assumes m: "0 < m" and b: "a \<le> b"
  shows "b - of_int m * of_int (truncRat (b / of_int m))
           + of_int m * of_int (truncRat (a / of_int m)) \<le> b"
  using window_width [OF m b] by linarith

lemma objectKeys_range: "objectKeys (map (\<lambda>k. (k, v)) [i .. j]) = [i .. j]"
  by (simp add: objectKeys_def comp_def)

lemma midPoint_section: "floorDiv (currentTimePoint midPoint) 5 = 1024"
  by (simp add: midPoint_def floorDiv_def)

lemma evicts_mid:
  assumes "timeLength s = 20000" and "bufferL2Size s = 2048"
  shows "evicts s 1024 idx = (idx < 0 \<or> 2048 < idx)"
proof -
  have "truncRat (2048 / 20000) = 0" by (simp add: truncRat_def floor_eq_iff)
  moreover have "truncRat 0 = 0" by (simp add: truncRat_def)
  ultimately show ?thesis using assms by (simp add: evicts_def jsRem_def numLess_def)
qed

lemma fullWindow_fields:
  "timeLength fullWindow = 20000" "bufferL2Size fullWindow = 2048" "bufferSize fullWindow = 5"
  "bufferL2 fullWindow = map (\<lambda>k. (k, demoBuffer)) [0 .. 2048]"
  by (simp_all add: fullWindow_def demoState_def tsRPC_def)

lemma overfull_fields:
  "timeLength overfull = 20000" "bufferL2Size overfull = 2048" "bufferSize overfull = 5"
  "bufferL2 overfull = map (\<lambda>k. (k, demoBuffer)) [0 .. 3000]"
  by (simp_all add: overfull_def demoState_def tsRPC_def)

lemma fullWindow_kept: "bufferL2 (freeBuffer fullWindow midPoint) = bufferL2 fullWindow"
proof -
  have "filter (\<lambda>kv. \<not> evicts fullWindow 1024 (fst kv)) (bufferL2 fullWindow) = bufferL2 fullWindow"
    by (rule filter_True) (auto simp: evicts_mid [OF fullWindow_fields(1,2)] fullWindow_fields(4))
  then show ?thesis
    by (simp add: freeBuffer_cache fullWindow_fields(3) midPoint_section)
qed

text \<open>
  Claim C5, as stated: after one sweep of a cache that holds more than \<open>bufferL2Size\<close>
  segments, at most \<open>bufferL2Size\<close> remain. With the 2049 sections 0 to 2048 resident, a
  budget of 2048 and the playback in section 1024, the window reaches from 0 to 2048,
  both ends included, and the sweep deletes nothing.
\<close>

theorem freeBuffer_count_counterexample:
  "bufferL2Size fullWindow < of_nat (length (objectKeys (bufferL2 fullWindow)))
   \<and> \<not> of_nat (length (objectKeys (bufferL2 (freeBuffer fullWindow midPoint))))
         \<le> bufferL2Size fullWindow"
  by (simp add: fullWindow_kept) (simp add: fullWindow_fields objectKeys_range)

text \<open>
  Claim C5, amended. For a positive time length, after one sweep of a cache that holds more
  than \<open>bufferL2Size\<close> segments, at most \<open>bufferL2Size + 1\<close> remain, and every remaining
  index lies, modulo the time length, within \<open>bufferL2Size / 2\<close> sections of the section
  of the playback position.
\<close>

theorem freeBuffer_window:
  assumes bs: "0 < bufferSize s" and tl: "0 < timeLength s" and l2: "0 \<le> bufferL2Size s"
    and over: "bufferL2Size s < of_nat (length (objectKeys (bufferL2 s)))"
  shows "of_nat (length (objectKeys (bufferL2 (freeBuffer s pt)))) \<le> bufferL2Size s + 1
         \<and> (\<forall>idx \<in> set (objectKeys (bufferL2 (freeBuffer s pt))).
               \<exists>k. \<bar>of_int (idx + k * timeLength s)
                      - of_int (floorDiv (currentTimePoint pt) (bufferSize s))\<bar>
                     \<le> bufferL2Size s / 2)"
proof -
  define sec where "sec = floorDiv (currentTimePoint pt) (bufferSize s)"
  define m where "m = timeLength s"
  define a :: rat where "a = of_int sec - bufferL2Size s / 2"
  define b :: rat where "b = of_int sec + bufferL2Size s / 2"
  define p where "p = truncRat (a / of_int m)"
  define lo :: rat where "lo = a - of_int m * of_int p"
  define hi :: rat where "hi = b - of_int m * of_int (truncRat (b / of_int m))"
  have m0: "0 < m" using tl by (simp add: m_def)
  have ab: "a \<le> b" using l2 by (simp add: a_def b_def)
  have cache: "bufferL2 (freeBuffer s pt) = filter (\<lambda>kv. \<not> evicts s sec (fst kv)) (bufferL2 s)"
    using over by (simp add: freeBuffer_cache sec_def)
  have kept: "lo \<le> of_int idx \<and> of_int idx \<le> hi"
    if "idx \<in> set (objectKeys (bufferL2 (freeBuffer s pt)))" for idx
  proof -
    from that have "\<not> evicts s sec idx" by (auto simp: cache objectKeys_def)
    with m0 show ?thesis
      by (simp add: evicts_def jsRem_def numLess_def not_less lo_def hi_def a_def b_def p_def m_def)
  qed
  have width: "hi - lo \<le> bufferL2Size s"
    using window_width [OF m0 ab] by (simp add: lo_def hi_def p_def a_def b_def)
  have "distinct (objectKeys (bufferL2 (freeBuffer s pt)))" by (simp add: objectKeys_def)
  from interval_count [OF this _ width l2] kept
  have count: "of_nat (length (objectKeys (bufferL2 (freeBuffer s pt)))) \<le> bufferL2Size s + 1"
    by blast
  have near: "\<exists>k. \<bar>of_int (idx + k * timeLength s) - of_int sec\<bar> \<le> bufferL2Size s / 2"
    if "idx \<in> set (objectKeys (bufferL2 (freeBuffer s pt)))" for idx
  proof -
    from kept [OF that] have lower: "a \<le> of_int idx + of_int m * of_int p"
      and "of_int idx \<le> hi" by (simp_all add: lo_def)
    with remainder_below [OF m0 ab] have upper: "of_int idx + of_int m * of_int p \<le> b"
      by (simp add: hi_def p_def)
    define y :: rat where "y = of_int (idx + p * timeLength s)"
    have "y = of_int idx + of_int m * of_int p"
      by (simp add: y_def m_def mult.commute)
    with lower upper have "of_int sec - bufferL2Size s / 2 \<le> y"
      and "y \<le> of_int sec + bufferL2Size s / 2"
      by (simp_all add: a_def b_def)
    then have "\<bar>y - of_int sec\<bar> \<le> bufferL2Size s / 2" by linarith
    then show ?thesis unfolding y_def ..
  qed
  from count near show ?thesis by (simp add: sec_def)
qed

text \<open>With the sections 0 to 3000 resident the sweep deletes 2049 to 3000 and keeps 2048.\<close>

theorem freeBuffer_window_witness:
  "0 < bufferSize overfull \<and> 0 < timeLength overfull \<and> 0 \<le> bufferL2Size overfull
   \<and> bufferL2Size overfull < of_nat (length (objectKeys (bufferL2 overfull)))
   \<and> 3000 \<in> set (objectKeys (bufferL2 overfull))
   \<and> 3000 \<notin> set (objectKeys (bufferL2 (freeBuffer overfull midPoint)))
   \<and> 2048 \<in> set (objectKeys (bufferL2 (freeBuffer overfull midPoint)))
   \<and> of_nat (length (objectKeys (bufferL2 (freeBuffer overfull midPoint)))) \<le> bufferL2Size overfull + 1
   \<and> (\<exists>k. \<bar>of_int (2048 + k * timeLength overfull)
              - of_int (floorDiv (currentTimePoint midPoint) (bufferSize overfull))\<bar>
             \<le> bufferL2Size overfull / 2)"
proof -
  have h1: "0 < bufferSize overfull" and h2: "0 < timeLength overfull"
    and h3: "0 \<le> bufferL2Size overfull"
    by (simp_all add: overfull_fields)
  have h4: "bufferL2Size overfull < of_nat (length (objectKeys (bufferL2 overfull)))"
    by (simp add: overfull_fields objectKeys_range)
  have swept: "bufferL2 (freeBuffer overfull midPoint)
                 = filter (\<lambda>kv. \<not> (fst kv < 0 \<or> 2048 < fst kv)) (bufferL2 overfull)"
    using h4 by (simp add: freeBuffer_cache overfull_fields(3) midPoint_section
        evicts_mid [OF overfull_fields(1,2)])
  have k1: "3000 \<in> set (objectKeys (bufferL2 overfull))"
    by (simp add: overfull_fields objectKeys_range)
  have k2: "3000 \<notin> set (objectKeys (bufferL2 (freeBuffer overfull midPoint)))"
    unfolding swept by (auto simp: objectKeys_def)
  have k3: "2048 \<in> set (objectKeys (bufferL2 (freeBuffer overfull midPoint)))"
    unfolding swept by (auto simp: objectKeys_def overfull_fields(4) image_iff)
  from freeBuffer_window [OF h1 h2 h3 h4, of midPoint] k3
  have c: "of_nat (length (objectKeys (bufferL2 (freeBuffer overfull midPoint))))
             \<le> bufferL2Size overfull + 1"
    and n: "\<exists>k. \<bar>of_int (2048 + k * timeLength overfull)
                 - of_int (floorDiv (currentTimePoint midPoint) (bufferSize overfull))\<bar>
                \<le> bufferL2Size overfull / 2"
    by blast+
  from h1 h2 h3 h4 k1 k2 k3 c n show ?thesis by blast
qed

end
